theory Spec2Isabelle
  imports Main "HOL-Library.Sublist"
begin

section \<open>Template-literal string utilities (utils.ts)\<close>

text \<open>
  The text path of the library is written in TypeScript's type language: every "function"
  is a conditional type over string literal types. A string literal type is modelled as a
  \<open>string\<close>; a conditional type \<open>S extends `...` ? X : Y\<close> becomes a case distinction on
  the result of matching \<open>S\<close> against the template.

  The compiler matches a literal against a template \<open>`${infer A}d${infer B}`\<close> by
  searching the \<^emph>\<open>first\<close> occurrence of the delimiter text \<open>d\<close>: \<open>A\<close> is the text before
  it and \<open>B\<close> everything after it. \<open>infer_split d s\<close> is that match.
\<close>

fun infer_split :: "string \<Rightarrow> string \<Rightarrow> (string \<times> string) option" where
  "infer_split d [] = (if d = [] then Some ([], []) else None)"
| "infer_split d (c # cs) =
     (if prefix d (c # cs) then Some ([], drop (length d) (c # cs))
      else (case infer_split d cs of
              None \<Rightarrow> None
            | Some (a, b) \<Rightarrow> Some (c # a, b)))"

text \<open>\<open>S extends `${string}d${string}`\<close>: the literal contains the text \<open>d\<close>.\<close>

definition contains :: "string \<Rightarrow> string \<Rightarrow> bool" where
  "contains d s \<longleftrightarrow> infer_split d s \<noteq> None"

text \<open>\<open>type WhitespaceChar = ' ' | '\n' | '\t' | '\r'\<close>\<close>

definition WhitespaceChar :: "char \<Rightarrow> bool" where
  "WhitespaceChar c \<longleftrightarrow>
     c = CHR '' '' \<or> c = CHR 0x0A \<or> c = CHR 0x09 \<or> c = CHR 0x0D"

text \<open>\<open>TrimStart<S> = S extends `${WhitespaceChar}${infer R}` ? TrimStart<R> : S\<close>\<close>

fun TrimStart :: "string \<Rightarrow> string" where
  "TrimStart [] = []"
| "TrimStart (c # r) = (if WhitespaceChar c then TrimStart r else c # r)"

text \<open>\<open>TrimEnd<S> = S extends `${infer R}${WhitespaceChar}` ? TrimEnd<R> : S\<close>\<close>

function TrimEnd :: "string \<Rightarrow> string" where
  "TrimEnd s = (if s \<noteq> [] \<and> WhitespaceChar (last s) then TrimEnd (butlast s) else s)"
  by pat_completeness auto
termination
  by (relation "measure length") auto

declare TrimEnd.simps [simp del]

definition Trim :: "string \<Rightarrow> string" where
  "Trim s = TrimStart (TrimEnd s)"

text \<open>
  \<open>CollapseWhitespace\<close> tries its four templates in order and starts again after each
  replacement: first a line feed, then a carriage return, then a tab, then two adjacent
  spaces; each match is replaced by a single space.
\<close>

definition ws_weight :: "string \<Rightarrow> nat" where
  "ws_weight s = length s + length (filter (\<lambda>c. c \<noteq> CHR '' '') s)"

lemma infer_split_Some: "infer_split d s = Some (a, b) \<Longrightarrow> s = a @ d @ b"
proof (induction s arbitrary: a)
  case Nil
  then show ?case by (simp split: if_splits)
next
  case (Cons c cs)
  show ?case
  proof (cases "prefix d (c # cs)")
    case True
    with Cons.prems show ?thesis by (auto simp: prefix_def)
  next
    case False
    with Cons.prems obtain a' where "infer_split d cs = Some (a', b)" "a = c # a'"
      by (auto split: option.splits)
    with Cons.IH show ?thesis by simp
  qed
qed

lemma ws_weight_char:
  "x \<noteq> CHR '' '' \<Longrightarrow> ws_weight (a @ '' '' @ b) < ws_weight (a @ [x] @ b)"
  by (simp add: ws_weight_def)

lemma ws_weight_spaces: "ws_weight (a @ '' '' @ b) < ws_weight (a @ ''  '' @ b)"
  by (simp add: ws_weight_def)

function CollapseWhitespace :: "string \<Rightarrow> string" where
  "CollapseWhitespace s =
     (case infer_split [CHR 0x0A] s of
        Some (a, b) \<Rightarrow> CollapseWhitespace (a @ '' '' @ b)
      | None \<Rightarrow>
     (case infer_split [CHR 0x0D] s of
        Some (a, b) \<Rightarrow> CollapseWhitespace (a @ '' '' @ b)
      | None \<Rightarrow>
     (case infer_split [CHR 0x09] s of
        Some (a, b) \<Rightarrow> CollapseWhitespace (a @ '' '' @ b)
      | None \<Rightarrow>
     (case infer_split ''  '' s of
        Some (a, b) \<Rightarrow> CollapseWhitespace (a @ '' '' @ b)
      | None \<Rightarrow> s))))"
  by pat_completeness auto
termination
proof (relation "measure ws_weight", goal_cases)
  case 1
  show ?case by simp
next
  case (2 s x a b)
  from 2 have "s = a @ ''  '' @ b" by (auto dest: infer_split_Some)
  then show ?case using ws_weight_spaces [of a b] by simp
next
  case (3 s x a b)
  from 3 have "s = a @ [CHR 0x09] @ b" by (auto dest: infer_split_Some)
  then show ?case using ws_weight_char [of "CHR 0x09" a b] by simp
next
  case (4 s x a b)
  from 4 have "s = a @ [CHR 0x0D] @ b" by (auto dest: infer_split_Some)
  then show ?case using ws_weight_char [of "CHR 0x0D" a b] by simp
next
  case (5 s x a b)
  from 5 have "s = a @ [CHR 0x0A] @ b" by (auto dest: infer_split_Some)
  then show ?case using ws_weight_char [of "CHR 0x0A" a b] by simp
qed

declare CollapseWhitespace.simps [simp del]

text \<open>\<open>StripSemicolon<S> = S extends `${infer R};` ? Trim<R> : S\<close>\<close>

definition StripSemicolon :: "string \<Rightarrow> string" where
  "StripSemicolon s = (if s \<noteq> [] \<and> last s = CHR '';'' then Trim (butlast s) else s)"

text \<open>
  The intrinsic \<open>Lowercase<S>\<close> lower-cases the literal. Characters are modelled as
  bytes; the letters \<open>A\<close> to \<open>Z\<close> are mapped to \<open>a\<close> to \<open>z\<close> and every other byte is kept.
\<close>

definition lower_char :: "char \<Rightarrow> char" where
  "lower_char c =
     (let n = (of_char c :: nat) in if 65 \<le> n \<and> n \<le> 90 then char_of (n + 32) else c)"

definition Lowercase :: "string \<Rightarrow> string" where
  "Lowercase s = map lower_char s"

section \<open>Normalizer (normalize.ts)\<close>

text \<open>\<open>Normalize<S> = StripSemicolon<Trim<CollapseWhitespace<Lowercase<S>>>>\<close>\<close>

definition Normalize :: "string \<Rightarrow> string" where
  "Normalize s = StripSemicolon (Trim (CollapseWhitespace (Lowercase s)))"


text \<open>
  A template with literal text at both ends, \<open>`pre${infer A}d${infer B}suf`\<close>, matches a
  literal that starts with \<open>pre\<close>, ends with \<open>suf\<close> (without overlap), and whose middle
  part contains \<open>d\<close>; the middle is split at the first occurrence of \<open>d\<close>.
  \<open>match_wrapped\<close> is the one-placeholder template \<open>`pre${infer A}suf`\<close>.
\<close>

definition match_wrapped :: "string \<Rightarrow> string \<Rightarrow> string \<Rightarrow> string option" where
  "match_wrapped pre suf s =
     (if prefix pre s \<and> suffix suf s \<and> length pre + length suf \<le> length s
      then Some (take (length s - length pre - length suf) (drop (length pre) s))
      else None)"

definition match_template ::
  "string \<Rightarrow> string \<Rightarrow> string \<Rightarrow> string \<Rightarrow> (string \<times> string) option" where
  "match_template pre d suf s =
     (case match_wrapped pre suf s of
        None \<Rightarrow> None
      | Some middle \<Rightarrow> infer_split d middle)"

lemma length_TrimStart: "length (TrimStart s) \<le> length s"
  by (induction s) auto

lemma length_TrimEnd: "length (TrimEnd s) \<le> length s"
proof (induction s rule: TrimEnd.induct)
  case (1 s)
  show ?case
  proof (cases "s \<noteq> [] \<and> WhitespaceChar (last s)")
    case True
    with 1 have "length (TrimEnd (butlast s)) \<le> length (butlast s)" by simp
    moreover from True have "TrimEnd s = TrimEnd (butlast s)"
      by (subst TrimEnd.simps) simp
    ultimately show ?thesis by simp
  next
    case False
    then have "TrimEnd s = s" by (subst TrimEnd.simps) auto
    then show ?thesis by simp
  qed
qed

lemma length_Trim: "length (Trim s) \<le> length s"
  unfolding Trim_def using length_TrimStart [of "TrimEnd s"] length_TrimEnd [of s] by simp

lemma infer_split_length:
  "infer_split d s = Some (a, b) \<Longrightarrow> length s = length a + length d + length b"
  by (drule infer_split_Some) simp

lemma match_wrapped_length:
  "match_wrapped pre suf s = Some m \<Longrightarrow> length m + length pre + length suf = length s"
  by (auto simp: match_wrapped_def split: if_splits)

lemma match_wrapped_Trim_less:
  "match_wrapped pre suf s = Some m \<Longrightarrow> pre \<noteq> [] \<Longrightarrow> length (Trim m) < length s"
  using match_wrapped_length [of pre suf s m] length_Trim [of m] by (cases pre) auto

lemma infer_split_less:
  "infer_split d s = Some (a, b) \<Longrightarrow> d \<noteq> [] \<Longrightarrow> length b < length s"
  using infer_split_length [of d s a b] by (cases d) auto

lemma infer_split_Trim_less:
  "infer_split d s = Some (a, b) \<Longrightarrow> d \<noteq> [] \<Longrightarrow> length (Trim b) < length s"
  using infer_split_less [of d s a b] length_Trim [of b] by simp

section \<open>FROM and JOIN targets (parse-from.ts)\<close>

text \<open>\<open>StripAlias<S> = S extends `${infer Table} ${string}` ? Table : S\<close>\<close>

definition StripAlias :: "string \<Rightarrow> string" where
  "StripAlias s = (case infer_split '' '' s of Some (table, _) \<Rightarrow> table | None \<Rightarrow> s)"

text \<open>
  \<open>StripAfterKeyword\<close> tests the clause keywords in the order of the source and cuts the
  text at the first occurrence of the first keyword that occurs at all.
\<close>

definition clause_keywords :: "string list" where
  "clause_keywords =
     ['' where '', '' group '', '' order '', '' limit '', '' having '', '' union '',
      '' join '', '' inner '', '' left '', '' right '', '' full '', '' cross '']"

fun strip_after :: "string list \<Rightarrow> string \<Rightarrow> string" where
  "strip_after [] s = StripAlias (Trim s)"
| "strip_after (k # ks) s =
     (case infer_split k s of
        Some (t, _) \<Rightarrow> StripAlias (Trim t)
      | None \<Rightarrow> strip_after ks s)"

definition StripAfterKeyword :: "string \<Rightarrow> string" where
  "StripAfterKeyword s = strip_after clause_keywords s"

text \<open>The result \<open>never\<close> of a conditional type is \<open>None\<close>.\<close>

definition ExtractTableName :: "string \<Rightarrow> string option" where
  "ExtractTableName s =
     (case infer_split '' from '' s of
        Some (_, rest) \<Rightarrow> Some (StripAfterKeyword (Trim rest))
      | None \<Rightarrow> None)"

definition ExtractJoinedTableName :: "string \<Rightarrow> string option" where
  "ExtractJoinedTableName s =
     (case infer_split '' join '' s of
        Some (_, rest) \<Rightarrow>
          (case infer_split '' on '' rest of
             Some (table, _) \<Rightarrow> Some (StripAlias (Trim table))
           | None \<Rightarrow> Some (StripAfterKeyword (Trim rest)))
      | None \<Rightarrow> None)"

definition HasJoin :: "string \<Rightarrow> bool" where
  "HasJoin s \<longleftrightarrow> contains '' join '' s"

section \<open>The select list (parse-select.ts)\<close>

record SelectItem =
  expr :: string
  alias' :: string

definition ExtractSelectList :: "string \<Rightarrow> string option" where
  "ExtractSelectList s =
     (case match_template ''select distinct '' '' from '' [] s of
        Some (cols, _) \<Rightarrow> Some (Trim cols)
      | None \<Rightarrow>
     (case match_template ''select '' '' from '' [] s of
        Some (cols, _) \<Rightarrow> Some (Trim cols)
      | None \<Rightarrow> None))"

definition IsSelectStar :: "string \<Rightarrow> bool" where
  "IsSelectStar s \<longleftrightarrow> Trim s = ''*''"

text \<open>
  \<open>SplitByComma\<close> reads one character at a time; \<open>Depth\<close> is a tuple of zeros in the
  source and a natural number here (a closing bracket at depth 0 leaves the depth at 0).
\<close>

fun SplitByComma :: "string \<Rightarrow> nat \<Rightarrow> string \<Rightarrow> string list \<Rightarrow> string list" where
  "SplitByComma [] depth current result =
     (if current = [] then result else result @ [Trim current])"
| "SplitByComma (ch # rest) depth current result =
     (if ch = CHR ''('' \<or> ch = CHR ''[''
        then SplitByComma rest (Suc depth) (current @ [ch]) result
      else if ch = CHR '')'' \<or> ch = CHR '']''
        then SplitByComma rest (depth - 1) (current @ [ch]) result
      else if ch = CHR '',''
        then (if depth = 0
              then SplitByComma rest 0 [] (result @ [Trim current])
              else SplitByComma rest depth (current @ [ch]) result)
      else SplitByComma rest depth (current @ [ch]) result)"

text \<open>
  \<open>InferDefaultAlias\<close>: an expression with a bracket or a parenthesis is kept as it is;
  only then is a qualifier (the text up to the first dot) removed.
\<close>

definition InferDefaultAlias :: "string \<Rightarrow> string" where
  "InferDefaultAlias s =
     (if contains ''['' s then s
      else if contains ''('' s then s
      else (case infer_split ''.'' s of
              Some (_, col) \<Rightarrow> col
            | None \<Rightarrow> s))"

text \<open>
  The alias rule of the specification, in its order: a leading qualifier is removed
  first; an expression without qualifier is kept, with or without brackets.
\<close>

definition InferDefaultAlias_spec :: "string \<Rightarrow> string" where
  "InferDefaultAlias_spec s =
     (case infer_split ''.'' s of
        Some (_, col) \<Rightarrow> col
      | None \<Rightarrow> (if contains ''['' s \<or> contains ''('' s then s else s))"

function FindLastAs :: "string \<Rightarrow> string \<Rightarrow> SelectItem" where
  "FindLastAs Prefix Rest =
     (case infer_split '' as '' Rest of
        Some (A, B) \<Rightarrow>
          (if contains '' as '' B
           then FindLastAs (Prefix @ '' as '' @ A) B
           else \<lparr>expr = Trim (Prefix @ '' as '' @ A), alias' = Trim B\<rparr>)
      | None \<Rightarrow>
          \<lparr>expr = Trim (Prefix @ '' as '' @ Rest),
           alias' = InferDefaultAlias (Trim (Prefix @ '' as '' @ Rest))\<rparr>)"
  by pat_completeness auto
termination
  by (relation "measure (\<lambda>(p, r). length r)") (auto intro: infer_split_less)

declare FindLastAs.simps [simp del]

definition ParseSingleItem :: "string \<Rightarrow> SelectItem" where
  "ParseSingleItem s =
     (case infer_split '' as '' (Trim s) of
        Some (Expr, Alias) \<Rightarrow>
          (if contains '' as '' Alias
           then FindLastAs (Trim Expr) Alias
           else \<lparr>expr = Trim Expr, alias' = Trim Alias\<rparr>)
      | None \<Rightarrow> \<lparr>expr = Trim s, alias' = InferDefaultAlias (Trim s)\<rparr>)"

definition ParseSelectItems :: "string \<Rightarrow> SelectItem list" where
  "ParseSelectItems s = map ParseSingleItem (SplitByComma s 0 [] [])"


section \<open>SQL type descriptors (sql-types.ts)\<close>

text \<open>
  The TypeScript types that \<open>MapSqlType\<close> can build, as a datatype:
  \<open>NumericString\<close> is \<open>`${number}`\<close>, \<open>HexString\<close> is \<open>`0x${string}`\<close>, \<open>PlainString\<close> is
  \<open>string\<close>, \<open>SmallInt\<close> is \<open>number\<close>, \<open>Nullable t\<close> is \<open>t | null\<close>, \<open>ArrayOf t\<close> is
  \<open>Array<t>\<close>, \<open>MapOf t\<close> is \<open>Record<string, t>\<close>, \<open>Variant\<close> is
  \<open>boolean | `${number}` | string\<close> and \<open>Unknown\<close> is \<open>unknown\<close>.
\<close>

datatype tstype =
    NumericString
  | HexString
  | PlainString
  | Boolean
  | SmallInt
  | Nullable tstype
  | ArrayOf tstype
  | MapOf tstype
  | Variant
  | Unknown

function MapSqlType :: "string \<Rightarrow> tstype"
  and ParseMapType :: "string \<Rightarrow> tstype" where
  "MapSqlType t =
     (if t = ''uint64'' then NumericString
      else if t = ''uint256'' then NumericString
      else if t = ''int256'' then NumericString
      else if t = ''hex'' then HexString
      else if t = ''string'' then PlainString
      else (case match_wrapped ''nullable('' '')'' t of
              Some inner \<Rightarrow> Nullable (MapSqlType (Trim inner))
            | None \<Rightarrow>
      if t = ''datetime'' then PlainString
      else if prefix ''datetime64'' t then PlainString
      else if t = ''bool'' then Boolean
      else if t = ''int8'' then SmallInt
      else if t = ''uint32'' then SmallInt
      else if prefix ''enum8'' t then SmallInt
      else (case match_wrapped ''array('' '')'' t of
              Some inner \<Rightarrow> ArrayOf (MapSqlType (Trim inner))
            | None \<Rightarrow>
           (case match_wrapped ''map('' '')'' t of
              Some rest \<Rightarrow> ParseMapType (Trim rest)
            | None \<Rightarrow>
           (case match_wrapped ''variant('' '')'' t of
              Some _ \<Rightarrow> Variant
            | None \<Rightarrow> Unknown)))))"
| "ParseMapType s =
     (case infer_split '', '' s of
        Some (_, v) \<Rightarrow> MapOf (MapSqlType (Trim v))
      | None \<Rightarrow> MapOf Unknown)"
  by pat_completeness auto
termination
  by (relation "measure (\<lambda>x. case x of Inl t \<Rightarrow> length t | Inr s \<Rightarrow> length s)")
     (auto intro: match_wrapped_Trim_less infer_split_Trim_less)

declare MapSqlType.simps [simp del] ParseMapType.simps [simp del]

section \<open>The schema catalog (schema.ts)\<close>

definition BlocksSchema :: "(string \<times> string) list" where
  "BlocksSchema =
     [(''block_number'', ''uint64''), (''block_hash'', ''Hex''), (''parent_hash'', ''Hex''),
      (''timestamp'', ''DateTime''), (''miner'', ''Hex''), (''nonce'', ''uint64''),
      (''sha3_uncles'', ''Hex''), (''transactions_root'', ''Hex''), (''state_root'', ''Hex''),
      (''receipts_root'', ''Hex''), (''logs_bloom'', ''Hex''), (''gas_limit'', ''uint64''),
      (''gas_used'', ''uint64''), (''base_fee_per_gas'', ''uint64''),
      (''total_difficulty'', ''String''), (''size'', ''uint64''), (''extra_data'', ''Hex''),
      (''mix_hash'', ''Hex''), (''withdrawals_root'', ''Hex''),
      (''parent_beacon_block_root'', ''Hex''), (''blob_gas_used'', ''uint64''),
      (''excess_blob_gas'', ''uint64''), (''transaction_count'', ''uint64''),
      (''action'', ''Int8'')]"

definition EventsSchema :: "(string \<times> string) list" where
  "EventsSchema =
     [(''block_number'', ''uint64''), (''block_hash'', ''Hex''),
      (''timestamp'', ''DateTime64(9)''), (''transaction_hash'', ''Hex''),
      (''transaction_to'', ''Hex''), (''transaction_from'', ''Hex''),
      (''transaction_index'', ''uint64''), (''log_index'', ''uint64''), (''address'', ''Hex''),
      (''topics'', ''Array(Hex)''), (''event_name'', ''String''),
      (''event_signature'', ''String''),
      (''parameters'', ''Map(String, Variant(Bool, Int256, String, uint256))''),
      (''parameter_types'', ''Map(String, String)''), (''action'', ''Int8'')]"

definition TransactionsSchema :: "(string \<times> string) list" where
  "TransactionsSchema =
     [(''block_number'', ''uint64''), (''block_hash'', ''Hex''), (''transaction_hash'', ''Hex''),
      (''transaction_index'', ''uint64''), (''from_address'', ''Hex''),
      (''to_address'', ''Hex''), (''value'', ''String''), (''gas'', ''uint64''),
      (''gas_price'', ''uint64''), (''input'', ''Hex''), (''nonce'', ''uint64''),
      (''type'', ''uint64''), (''max_fee_per_gas'', ''uint64''),
      (''max_priority_fee_per_gas'', ''uint64''), (''chain_id'', ''uint64''), (''v'', ''Hex''),
      (''r'', ''Hex''), (''s'', ''Hex''), (''is_system_tx'', ''Bool''),
      (''max_fee_per_blob_gas'', ''String''), (''blob_versioned_hashes'', ''Array(Hex)''),
      (''timestamp'', ''DateTime64(9)''), (''action'', ''Int8'')]"

definition EncodedLogsSchema :: "(string \<times> string) list" where
  "EncodedLogsSchema =
     [(''block_number'', ''uint64''), (''block_hash'', ''Hex''),
      (''block_timestamp'', ''DateTime64(9)''), (''transaction_hash'', ''Hex''),
      (''transaction_to'', ''Hex''), (''transaction_from'', ''Hex''),
      (''log_index'', ''uint32''), (''address'', ''Hex''), (''topics'', ''Array(Hex)''),
      (''action'', ''Int8'')]"

definition TransfersSchema :: "(string \<times> string) list" where
  "TransfersSchema =
     [(''block_number'', ''uint64''), (''block_timestamp'', ''DateTime64(9)''),
      (''transaction_to'', ''Hex''), (''transaction_from'', ''Hex''),
      (''log_index'', ''uint32''), (''token_address'', ''Hex''), (''from_address'', ''Hex''),
      (''to_address'', ''Hex''), (''value'', ''uint256''), (''action'', ''Int8'')]"

text \<open>
  A schema maps a column name to the type of the column. After a join the type of a column
  can be a union \<open>A[K] | B[K]\<close>, so the type of a column is the set of the members of the
  union: one SQL type descriptor for a column of a catalog table.
\<close>

type_synonym schema = "string \<rightharpoonup> string set"

definition schema_of :: "(string \<times> string) list \<Rightarrow> schema" where
  "schema_of cols = (\<lambda>k. map_option (\<lambda>t. {t}) (map_of cols k))"

definition TableSchemas :: "string \<rightharpoonup> schema" where
  "TableSchemas =
     map_of
       [(''base.blocks'', schema_of BlocksSchema),
        (''base.events'', schema_of EventsSchema),
        (''base.transactions'', schema_of TransactionsSchema),
        (''base.encoded_logs'', schema_of EncodedLogsSchema),
        (''base.transfers'', schema_of TransfersSchema),
        (''blocks'', schema_of BlocksSchema),
        (''events'', schema_of EventsSchema),
        (''transactions'', schema_of TransactionsSchema),
        (''encoded_logs'', schema_of EncodedLogsSchema),
        (''transfers'', schema_of TransfersSchema)]"

section \<open>Row resolution (resolve.ts, parse-expressions.ts, index.ts)\<close>

text \<open>
  \<open>MergeSchemas<A, B>\<close> is a mapped type over \<open>keyof A | keyof B\<close>. A property type is the
  set of the members of its union, so \<open>A[K] | B[K]\<close> is the union of two sets.
\<close>

definition MergeSchemas :: "('k \<rightharpoonup> 'v set) \<Rightarrow> ('k \<rightharpoonup> 'v set) \<Rightarrow> ('k \<rightharpoonup> 'v set)" where
  "MergeSchemas A B =
     (\<lambda>K. case A K of
             Some a \<Rightarrow> (case B K of Some b \<Rightarrow> Some (a \<union> b) | None \<Rightarrow> Some a)
           | None \<Rightarrow> (case B K of Some b \<Rightarrow> Some b | None \<Rightarrow> None))"

text \<open>
  \<open>MapSqlType<Lowercase<Schema[K] & string>>\<close> distributes over the members of a union.
\<close>

definition column_type :: "string set \<Rightarrow> tstype set" where
  "column_type tys = (\<lambda>t. MapSqlType (Lowercase t)) ` tys"

text \<open>
  \<open>T extends Record<string, infer V> ? V : unknown\<close>, not distributive: every member of
  \<open>T\<close> has to be a record, and \<open>V\<close> is the union of the value types.
\<close>

fun is_MapOf :: "tstype \<Rightarrow> bool" where
  "is_MapOf (MapOf v) = True"
| "is_MapOf _ = False"

fun map_value :: "tstype \<Rightarrow> tstype" where
  "map_value (MapOf v) = v"
| "map_value _ = Unknown"

definition record_value :: "tstype set \<Rightarrow> tstype set" where
  "record_value T = (if T \<noteq> {} \<and> (\<forall>t \<in> T. is_MapOf t) then map_value ` T else {Unknown})"

definition map_index :: "string \<Rightarrow> schema \<Rightarrow> tstype set" where
  "map_index Col Schema =
     (case Schema Col of
        Some tys \<Rightarrow> record_value (column_type tys)
      | None \<Rightarrow> {Unknown})"

function ResolveExpression :: "string \<Rightarrow> schema \<Rightarrow> tstype set" where
  "ResolveExpression Expr Schema =
     (case Schema Expr of
        Some tys \<Rightarrow> column_type tys
      | None \<Rightarrow>
     (case infer_split ''.'' Expr of
        Some (_, Rest) \<Rightarrow> ResolveExpression Rest Schema
      | None \<Rightarrow>
     (case match_template [] [CHR ''['', CHR 0x27] [CHR 0x27, CHR '']''] Expr of
        Some (Col, _) \<Rightarrow> map_index Col Schema
      | None \<Rightarrow>
     (case match_template [] [CHR ''['', CHR 0x22] [CHR 0x22, CHR '']''] Expr of
        Some (Col, _) \<Rightarrow> map_index Col Schema
      | None \<Rightarrow>
     (case match_wrapped ''cast('' '')'' Expr of
        Some Inner \<Rightarrow>
          (case infer_split '' as '' Inner of
             Some (_, TargetType) \<Rightarrow> {MapSqlType (Trim TargetType)}
           | None \<Rightarrow> {Unknown})
      | None \<Rightarrow>
      if match_wrapped ''count('' '')'' Expr \<noteq> None then {NumericString}
      else if match_wrapped ''sum('' '')'' Expr \<noteq> None then {NumericString}
      else if match_wrapped ''avg('' '')'' Expr \<noteq> None then {SmallInt}
      else (case match_wrapped ''min('' '')'' Expr of
              Some Inner \<Rightarrow> ResolveExpression (Trim Inner) Schema
            | None \<Rightarrow>
           (case match_wrapped ''max('' '')'' Expr of
              Some Inner \<Rightarrow> ResolveExpression (Trim Inner) Schema
            | None \<Rightarrow> {Unknown})))))))"
  by pat_completeness auto
termination
  by (relation "measure (\<lambda>(e, s). length e)")
     (auto intro: match_wrapped_Trim_less infer_split_less)

declare ResolveExpression.simps [simp del]

definition ResolveRow :: "SelectItem list \<Rightarrow> schema \<Rightarrow> (string \<times> tstype set) list" where
  "ResolveRow Items Schema = map (\<lambda>i. (alias' i, ResolveExpression (expr i) Schema)) Items"

definition FullRow :: "schema \<Rightarrow> (string \<rightharpoonup> tstype set)" where
  "FullRow Schema = (\<lambda>K. map_option column_type (Schema K))"

text \<open>
  \<open>ResolveSchema\<close> receives \<open>TableSchemas[TableName]\<close>, which its caller has looked up.
\<close>

definition ResolveSchema :: "string \<Rightarrow> schema \<Rightarrow> schema" where
  "ResolveSchema s FromSchema =
     (if HasJoin s
      then (case ExtractJoinedTableName s of
              Some JoinedName \<Rightarrow>
                (case TableSchemas JoinedName of
                   Some JoinedSchema \<Rightarrow> MergeSchemas FromSchema JoinedSchema
                 | None \<Rightarrow> FromSchema)
            | None \<Rightarrow> FromSchema)
      else FromSchema)"

text \<open>
  The result of the text path: \<open>Fallback\<close> is \<open>Record<string, unknown>\<close>; \<open>StarRow\<close> is the
  mapped type of \<open>FullRow\<close>; \<open>ItemRow\<close> lists, in the order of the select list, the
  single-key objects \<open>{ [alias]: type }\<close> that \<open>ResolveRow\<close> intersects.
\<close>

datatype row =
    Fallback
  | StarRow "string \<rightharpoonup> tstype set"
  | ItemRow "(string \<times> tstype set) list"

definition InferRow :: "string \<Rightarrow> row" where
  "InferRow s =
     (case ExtractTableName s of
        None \<Rightarrow> Fallback
      | Some TableName \<Rightarrow>
     (case TableSchemas TableName of
        None \<Rightarrow> Fallback
      | Some FromSchema \<Rightarrow>
     (let Schema = ResolveSchema s FromSchema in
      case ExtractSelectList s of
        None \<Rightarrow> Fallback
      | Some SelectList \<Rightarrow>
          if IsSelectStar SelectList then StarRow (FullRow Schema)
          else ItemRow (ResolveRow (ParseSelectItems SelectList) Schema))))"

text \<open>\<open>TypedQuery<SQL> = { result: Array<InferRow<Normalize<SQL>>> }\<close>\<close>

definition TypedQuery :: "string \<Rightarrow> row" where
  "TypedQuery SQL = InferRow (Normalize SQL)"

section \<open>The syntax tree of the builder (builder/ast.ts)\<close>

text \<open>
  Every node interface is a constructor, named by its \<open>kind\<close>. An optional property
  (\<open>table?: string\<close>) is an \<open>option\<close>. Numbers are modelled as integers, the values
  that limits, array indexes and integer literals take. The kind \<open>Not\<close> and the
  properties \<open>distinct\<close>, \<open>from\<close> and \<open>where\<close> carry a prime, since the plain names are
  taken.
\<close>

datatype literal = LString string | LNumber int | LBoolean bool | LNull

datatype JoinType = INNER | LEFT | RIGHT | FULL | CROSS

datatype Direction = ASC | DESC

datatype TableNode = Table string "string option"

datatype AstNode =
    Column "string option" string
  | Star "string option"
  | Value literal
  | Raw string
  | MapAccess AstNode string
  | ArrayIndex AstNode int
  | FunctionCall string "AstNode list"
  | Cast AstNode string bool
  | BinaryOp AstNode string AstNode
  | And "AstNode list"
  | Or "AstNode list"
  | Not' AstNode
  | Between AstNode AstNode AstNode
  | In AstNode "AstNode list" bool
  | IsNull AstNode bool
  | Parens AstNode
  | Alias AstNode string
  | TableRef TableNode
  | JoinRef JoinNode
  | OrderByItemRef OrderByItemNode
  | CteRef CteNode
  | SelectQueryRef SelectQueryNode
and JoinNode = Join JoinType TableNode "AstNode option"
and OrderByItemNode = OrderByItem AstNode "Direction option"
and CteNode = Cte string SelectQueryNode
and SelectQueryNode =
    SelectQuery
      (ctes: "CteNode list")
      (distinct': bool)
      (selections: "AstNode list")
      (from': TableNode)
      (joins: "JoinNode list")
      (where': "AstNode list")
      (groupBy: "AstNode list")
      (having: "AstNode list")
      (orderBy: "OrderByItemNode list")
      (limit: "int option")

section \<open>The compiler (builder/compiler.ts)\<close>

text \<open>\<open>Array.prototype.join\<close> on an array of strings.\<close>

fun join :: "string \<Rightarrow> string list \<Rightarrow> string" where
  "join sep [] = []"
| "join sep [x] = x"
| "join sep (x # y # ys) = x @ sep @ join sep (y # ys)"

text \<open>\<open>String(n)\<close> for an integer \<open>n\<close>: the decimal numeral.\<close>

definition digit_char :: "nat \<Rightarrow> char" where
  "digit_char d = char_of (48 + d)"

fun digits :: "nat \<Rightarrow> string" where
  "digits n = (if n < 10 then [digit_char n] else digits (n div 10) @ [digit_char (n mod 10)])"

declare digits.simps [simp del]

definition String_of_number :: "int \<Rightarrow> string" where
  "String_of_number i = (if i < 0 then ''-'' @ digits (nat (- i)) else digits (nat i))"

text \<open>A string is truthy when it is present and not empty.\<close>

fun truthy :: "string option \<Rightarrow> bool" where
  "truthy None = False"
| "truthy (Some s) = (s \<noteq> [])"

definition JoinType_text :: "JoinType \<Rightarrow> string" where
  "JoinType_text t =
     (case t of INNER \<Rightarrow> ''INNER'' | LEFT \<Rightarrow> ''LEFT'' | RIGHT \<Rightarrow> ''RIGHT''
      | FULL \<Rightarrow> ''FULL'' | CROSS \<Rightarrow> ''CROSS'')"

definition Direction_text :: "Direction \<Rightarrow> string" where
  "Direction_text d = (case d of ASC \<Rightarrow> ''ASC'' | DESC \<Rightarrow> ''DESC'')"

definition compileColumn :: "string option \<Rightarrow> string \<Rightarrow> string" where
  "compileColumn table name =
     (if truthy table then the table @ ''.'' @ name else name)"

definition compileValue :: "literal \<Rightarrow> string" where
  "compileValue v =
     (case v of
        LNull \<Rightarrow> ''NULL''
      | LString s \<Rightarrow> [CHR 0x27] @ s @ [CHR 0x27]
      | LBoolean b \<Rightarrow> (if b then ''true'' else ''false'')
      | LNumber n \<Rightarrow> String_of_number n)"

fun compileTable :: "TableNode \<Rightarrow> string" where
  "compileTable (Table name alias) =
     (if truthy alias then name @ '' AS '' @ the alias else name)"

text \<open>
  \<open>compileQuery\<close> pushes the clauses onto \<open>parts\<close> one after the other; the model
  threads the array through the same steps.
\<close>

fun compileQuery :: "SelectQueryNode \<Rightarrow> string"
  and compileNode :: "AstNode \<Rightarrow> string"
  and compileJoin :: "JoinNode \<Rightarrow> string"
  and compileOrderByItem :: "OrderByItemNode \<Rightarrow> string"
  and compileCte :: "CteNode \<Rightarrow> string" where
  "compileQuery (SelectQuery n_ctes n_distinct n_selections n_from n_joins n_where n_groupBy n_having n_orderBy n_limit) =
     (let parts = [];
          parts = (if n_ctes \<noteq> []
                   then parts @ [''WITH '' @ join '', '' (map compileCte n_ctes)]
                   else parts);
          distinct_text = (if n_distinct then ''SELECT DISTINCT'' else ''SELECT'');
          selections_text = join '', '' (map compileNode n_selections);
          parts = parts @ [distinct_text @ '' '' @ selections_text];
          parts = parts @ [''FROM '' @ compileTable n_from];
          parts = parts @ map compileJoin n_joins;
          parts = (if n_where \<noteq> []
                   then parts @ [''WHERE '' @ join '' AND '' (map compileNode n_where)]
                   else parts);
          parts = (if n_groupBy \<noteq> []
                   then parts @ [''GROUP BY '' @ join '', '' (map compileNode n_groupBy)]
                   else parts);
          parts = (if n_having \<noteq> []
                   then parts @ [''HAVING '' @ join '' AND '' (map compileNode n_having)]
                   else parts);
          parts = (if n_orderBy \<noteq> []
                   then parts @ [''ORDER BY '' @ join '', '' (map compileOrderByItem n_orderBy)]
                   else parts);
          parts = (case n_limit of
                     Some n \<Rightarrow> parts @ [''LIMIT '' @ String_of_number n]
                   | None \<Rightarrow> parts)
      in join '' '' parts)"
| "compileNode (Column table name) = compileColumn table name"
| "compileNode (Star table) = (if truthy table then the table @ ''.*'' else ''*'')"
| "compileNode (Value v) = compileValue v"
| "compileNode (Raw sql) = sql"
| "compileNode (MapAccess column key) =
     compileNode column @ [CHR ''['', CHR 0x27] @ key @ [CHR 0x27, CHR '']'']"
| "compileNode (ArrayIndex array index) =
     compileNode array @ ''['' @ String_of_number index @ '']''"
| "compileNode (FunctionCall name args) =
     (if name = ''countDistinct''
      then ''count(DISTINCT '' @ join '', '' (map compileNode args) @ '')''
      else name @ ''('' @ join '', '' (map compileNode args) @ '')'')"
| "compileNode (Cast e targetType doubleColon) =
     (if doubleColon then compileNode e @ ''::'' @ targetType
      else ''CAST('' @ compileNode e @ '' AS '' @ targetType @ '')'')"
| "compileNode (BinaryOp left op right) =
     compileNode left @ '' '' @ op @ '' '' @ compileNode right"
| "compileNode (And conditions) = join '' AND '' (map compileNode conditions)"
| "compileNode (Or conditions) = ''('' @ join '' OR '' (map compileNode conditions) @ '')''"
| "compileNode (Not' e) = ''NOT '' @ compileNode e"
| "compileNode (Between e low high) =
     compileNode e @ '' BETWEEN '' @ compileNode low @ '' AND '' @ compileNode high"
| "compileNode (In e values negated) =
     compileNode e @ '' '' @ (if negated then ''NOT IN'' else ''IN'') @ '' ('' @
     join '', '' (map compileNode values) @ '')''"
| "compileNode (IsNull e negated) =
     compileNode e @ '' IS '' @ (if negated then ''NOT '' else []) @ ''NULL''"
| "compileNode (Parens e) = ''('' @ compileNode e @ '')''"
| "compileNode (Alias e a) = compileNode e @ '' AS '' @ a"
| "compileNode (TableRef t) = compileTable t"
| "compileNode (SelectQueryRef q) = ''('' @ compileQuery q @ '')''"
| "compileNode (OrderByItemRef i) = compileOrderByItem i"
| "compileNode (CteRef c) = compileCte c"
| "compileNode (JoinRef j) = compileJoin j"
| "compileJoin (Join type table on) =
     JoinType_text type @ '' JOIN '' @ compileTable table @
     (case on of Some c \<Rightarrow> '' ON '' @ compileNode c | None \<Rightarrow> [])"
| "compileOrderByItem (OrderByItem e direction) =
     compileNode e @ (case direction of Some d \<Rightarrow> '' '' @ Direction_text d | None \<Rightarrow> [])"
| "compileCte (Cte name query) = name @ '' AS ('' @ compileQuery query @ '')''"

section \<open>Event interfaces (builder/abi-types.ts)\<close>

text \<open>
  An interface description is a tuple of items; only the items of type \<open>event\<close> carry
  data that the resolver reads. The optional properties \<open>name\<close> and \<open>components\<close> of a
  parameter are options.
\<close>

datatype AbiParameter =
  AbiParameter (param_type: string) (param_name: "string option")
    (param_components: "AbiParameter list option")

datatype AbiItem =
    AbiEvent (event_name: string) (event_inputs: "AbiParameter list")
  | AbiOther

text \<open>
  \<open>FormatParamType\<close> writes a tuple parameter as the list of its component types in
  parentheses, followed by the text after \<open>tuple\<close>; \<open>JoinParamTypes\<close> accumulates the
  comma-separated types in \<open>Result\<close>.
\<close>

fun FormatParamType :: "AbiParameter \<Rightarrow> string"
  and JoinParamTypes :: "AbiParameter list \<Rightarrow> string \<Rightarrow> string" where
  "FormatParamType (AbiParameter t n comps) =
     (case comps of
        Some C \<Rightarrow>
          (case match_wrapped ''tuple'' [] t of
             Some Arr \<Rightarrow> ''('' @ JoinParamTypes C [] @ '')'' @ Arr
           | None \<Rightarrow> t)
      | None \<Rightarrow> t)"
| "JoinParamTypes [] Result = Result"
| "JoinParamTypes (Head # Tail) Result =
     (if Result = [] then JoinParamTypes Tail (FormatParamType Head)
      else JoinParamTypes Tail (Result @ '','' @ FormatParamType Head))"

definition CdpEventSignature :: "AbiItem \<Rightarrow> string" where
  "CdpEventSignature E = event_name E @ ''('' @ JoinParamTypes (event_inputs E) [] @ '')''"

definition SolidityTypeToCdp :: "string \<Rightarrow> tstype" where
  "SolidityTypeToCdp T =
     (if T = ''address'' then HexString
      else if T = ''bool'' then Boolean
      else if prefix ''uint'' T then NumericString
      else if prefix ''int'' T then NumericString
      else if T = ''string'' then PlainString
      else if prefix ''bytes'' T then HexString
      else PlainString)"

fun is_event :: "AbiItem \<Rightarrow> bool" where
  "is_event (AbiEvent n i) = True"
| "is_event AbiOther = False"

definition ExtractEvents :: "AbiItem list \<Rightarrow> AbiItem list" where
  "ExtractEvents A = filter is_event A"

text \<open>
  \<open>FindEventBySignature\<close> distributes over the events of the interface: its result is the
  union of all events whose signature is \<open>Sig\<close>, and \<open>never\<close> (the empty list) when there
  is none.
\<close>

definition FindEventBySignature :: "AbiItem list \<Rightarrow> string \<Rightarrow> AbiItem list" where
  "FindEventBySignature A Sig = filter (\<lambda>E. CdpEventSignature E = Sig) (ExtractEvents A)"

fun FindParamByName :: "AbiParameter list \<Rightarrow> string \<Rightarrow> AbiParameter option" where
  "FindParamByName [] Key = None"
| "FindParamByName (Head # Tail) Key =
     (if param_name Head = Some Key then Some Head else FindParamByName Tail Key)"

text \<open>
  The type of a resolved expression is the set of the members of a union;
  \<open>{Variant}\<close> is \<open>boolean | `${number}` | string\<close>.
\<close>

definition EventParamType :: "AbiItem list \<Rightarrow> string \<Rightarrow> string \<Rightarrow> tstype set" where
  "EventParamType A Sig Key =
     (let Es = FindEventBySignature A Sig in
      if Es = [] then {Variant}
      else (let Ps = List.map_filter (\<lambda>E. FindParamByName (event_inputs E) Key) Es in
            if Ps = [] then {Variant}
            else set (map (\<lambda>P. SolidityTypeToCdp (param_type P)) Ps)))"

text \<open>
  \<open>ResolveMapType\<close>: \<open>Sig\<close> is \<open>None\<close> while it is the type \<open>string\<close> (no narrowing) and
  \<open>Some sig\<close> once \<open>where('event_signature', '=', sig)\<close> has narrowed it to a literal.
  \<open>BaseType extends Record<string, infer V> ? V : unknown\<close> distributes over \<open>BaseType\<close>.
\<close>

definition base_value :: "tstype set \<Rightarrow> tstype set" where
  "base_value BaseType = map_value ` BaseType"

definition ResolveMapType ::
  "tstype set \<Rightarrow> AbiItem list \<Rightarrow> string option \<Rightarrow> string \<Rightarrow> tstype set" where
  "ResolveMapType BaseType A Sig Key =
     (case Sig of
        None \<Rightarrow> base_value BaseType
      | Some sig \<Rightarrow>
          (if A = [] then base_value BaseType else EventParamType A sig Key))"

section \<open>The expression builder (builder/expression-builder.ts)\<close>

text \<open>
  An argument of a comparison helper is an expression, a string, a number, a boolean or
  \<open>null\<close>. An \<open>Expr\<close> is represented by its node.
\<close>

datatype operand =
    OExpr AstNode
  | OString string
  | ONumber int
  | OBoolean bool
  | ONull

text \<open>The test \<open>/^[a-zA-Z_][a-zA-Z0-9_.]*$/\<close>.\<close>

definition is_letter :: "char \<Rightarrow> bool" where
  "is_letter c \<longleftrightarrow>
     (let n = (of_char c :: nat) in (97 \<le> n \<and> n \<le> 122) \<or> (65 \<le> n \<and> n \<le> 90))"

definition is_digit :: "char \<Rightarrow> bool" where
  "is_digit c \<longleftrightarrow> (let n = (of_char c :: nat) in 48 \<le> n \<and> n \<le> 57)"

fun looks_like_column :: "string \<Rightarrow> bool" where
  "looks_like_column [] = False"
| "looks_like_column (c # cs) =
     ((is_letter c \<or> c = CHR ''_'') \<and>
      list_all (\<lambda>d. is_letter d \<or> is_digit d \<or> d = CHR ''_'' \<or> d = CHR ''.'') cs)"

text \<open>\<open>String.prototype.split\<close> with a one-character separator.\<close>

fun split :: "char \<Rightarrow> string \<Rightarrow> string list" where
  "split sep [] = [[]]"
| "split sep (c # cs) =
     (if c = sep then [] # split sep cs
      else (case split sep cs of
              [] \<Rightarrow> [[c]]
            | p # ps \<Rightarrow> (c # p) # ps))"

fun toNode :: "operand \<Rightarrow> AstNode" where
  "toNode (OExpr node) = node"
| "toNode (OString v) =
     (if looks_like_column v
      then (let parts = split (CHR ''.'') v in
            if length parts = 2 then Column (Some (parts ! 0)) (parts ! 1)
            else Column None v)
      else if v = ''*'' then Star None
      else Value (LString v))"
| "toNode (ONumber n) = Value (LNumber n)"
| "toNode (OBoolean b) = Value (LBoolean b)"
| "toNode ONull = Value LNull"

definition col :: "string \<Rightarrow> AstNode" where
  "col name = Column None name"

definition eq :: "AstNode \<Rightarrow> operand \<Rightarrow> AstNode" where
  "eq left right = BinaryOp left ''='' (toNode right)"

definition neq :: "AstNode \<Rightarrow> operand \<Rightarrow> AstNode" where
  "neq left right = BinaryOp left ''!='' (toNode right)"

definition gt :: "AstNode \<Rightarrow> operand \<Rightarrow> AstNode" where
  "gt left right = BinaryOp left ''>'' (toNode right)"

definition gte :: "AstNode \<Rightarrow> operand \<Rightarrow> AstNode" where
  "gte left right = BinaryOp left ''>='' (toNode right)"

definition lt :: "AstNode \<Rightarrow> operand \<Rightarrow> AstNode" where
  "lt left right = BinaryOp left ''<'' (toNode right)"

definition lte :: "AstNode \<Rightarrow> operand \<Rightarrow> AstNode" where
  "lte left right = BinaryOp left ''<='' (toNode right)"

definition between :: "AstNode \<Rightarrow> operand \<Rightarrow> operand \<Rightarrow> AstNode" where
  "between e low high = Between e (toNode low) (toNode high)"

definition inList :: "AstNode \<Rightarrow> operand list \<Rightarrow> AstNode" where
  "inList e vs = In e (map toNode vs) False"

definition notInList :: "AstNode \<Rightarrow> operand list \<Rightarrow> AstNode" where
  "notInList e vs = In e (map toNode vs) True"

section \<open>The query creator (builder/cdp.ts, builder/select-query-builder.ts)\<close>















fun limit' :: "SelectQueryNode \<Rightarrow> int \<Rightarrow> SelectQueryNode" where
  "limit' (SelectQuery n_ctes n_distinct n_selections n_from n_joins n_where n_groupBy
      n_having n_orderBy n_limit) count =
     SelectQuery n_ctes n_distinct n_selections n_from n_joins n_where n_groupBy n_having
       n_orderBy (Some count)"


section \<open>Facts about template matching\<close>

lemma infer_split_char:
  "infer_split [c] s =
     (if c \<in> set s
      then Some (takeWhile (\<lambda>x. x \<noteq> c) s, tl (dropWhile (\<lambda>x. x \<noteq> c) s))
      else None)"
  by (induction s) auto

lemma contains_char: "contains [c] s \<longleftrightarrow> c \<in> set s"
  by (simp add: contains_def infer_split_char)

lemma infer_split_None_iff: "infer_split d s = None \<longleftrightarrow> \<not> (\<exists>a b. s = a @ d @ b)"
proof (induction s)
  case Nil
  then show ?case by auto
next
  case (Cons c cs)
  show ?case
  proof (cases "prefix d (c # cs)")
    case True
    then obtain b where "c # cs = d @ b" by (auto simp: prefix_def)
    then have "c # cs = [] @ d @ b" by simp
    then have "\<exists>a b. c # cs = a @ d @ b" by blast
    with True show ?thesis by simp
  next
    case False
    have "(\<exists>a b. c # cs = a @ d @ b) \<longleftrightarrow> (\<exists>a b. cs = a @ d @ b)"
    proof
      assume "\<exists>a b. c # cs = a @ d @ b"
      then obtain a b where ab: "c # cs = a @ d @ b" by blast
      with False have "a \<noteq> []" by (auto simp: prefix_def)
      then obtain a' where "a = c # a'" using ab by (cases a) auto
      with ab have "cs = a' @ d @ b" by simp
      then show "\<exists>a b. cs = a @ d @ b" by blast
    next
      assume "\<exists>a b. cs = a @ d @ b"
      then obtain a b where "cs = a @ d @ b" by blast
      then have "c # cs = (c # a) @ d @ b" by simp
      then show "\<exists>a b. c # cs = a @ d @ b" by blast
    qed
    with False Cons.IH show ?thesis by (auto split: option.splits)
  qed
qed

lemma contains_iff: "contains d s \<longleftrightarrow> (\<exists>a b. s = a @ d @ b)"
  using infer_split_None_iff [of d s] by (simp add: contains_def)

section \<open>The alias of a select item (claims C6 and C7)\<close>

text \<open>
  Claim C6. The claim: for every select item that contains \<open>" as "\<close>, the alias boundary
  is the rightmost top-level \<open>" as "\<close>, so that the \<open>AS\<close> inside a cast that has no outer
  alias is never taken for the alias of the item. The parser does not do this for the
  claim's own example: the item \<open>cast(value as uint64)\<close> is split inside the cast, into
  the expression \<open>cast(value\<close> and the alias \<open>uint64)\<close>, and the query that selects it has
  one column \<open>uint64)\<close> of unknown type.
\<close>

theorem ParseSingleItem_splits_inside_cast:
  "ParseSingleItem ''cast(value as uint64)'' = \<lparr>expr = ''cast(value'', alias' = ''uint64)''\<rparr> \<and>
   TypedQuery ''SELECT CAST(value AS uint64) FROM base.transfers'' =
     ItemRow [(''uint64)'', {Unknown})]"
proof
  show "ParseSingleItem ''cast(value as uint64)'' = \<lparr>expr = ''cast(value'', alias' = ''uint64)''\<rparr>"
    by code_simp
  have "(case TypedQuery ''SELECT CAST(value AS uint64) FROM base.transfers'' of
           ItemRow r \<Rightarrow> r = [(''uint64)'', {Unknown})] | _ \<Rightarrow> False)"
    by code_simp
  then show "TypedQuery ''SELECT CAST(value AS uint64) FROM base.transfers'' =
     ItemRow [(''uint64)'', {Unknown})]"
    by (cases "TypedQuery ''SELECT CAST(value AS uint64) FROM base.transfers''") simp_all
qed

text \<open>
  Claim C7, as amended. The inferred alias of an item without alias boundary: an
  expression that contains \<open>[\<close> or \<open>(\<close> is kept verbatim, qualified or not; otherwise the
  text up to and including the first dot is removed; an expression with none of the
  three characters is its own alias.
\<close>

theorem InferDefaultAlias_rule:
  "(CHR ''['' \<in> set s \<or> CHR ''('' \<in> set s \<longrightarrow> InferDefaultAlias s = s) \<and>
   (CHR ''['' \<notin> set s \<and> CHR ''('' \<notin> set s \<and> CHR ''.'' \<in> set s \<longrightarrow>
      InferDefaultAlias s = tl (dropWhile (\<lambda>c. c \<noteq> CHR ''.'') s)) \<and>
   (CHR ''['' \<notin> set s \<and> CHR ''('' \<notin> set s \<and> CHR ''.'' \<notin> set s \<longrightarrow>
      InferDefaultAlias s = s)"
  by (simp add: InferDefaultAlias_def contains_char infer_split_char)

theorem InferDefaultAlias_rule_witness:
  "InferDefaultAlias ''count(t.value)'' = ''count(t.value)'' \<and>
   InferDefaultAlias ''t.block_number'' = ''block_number'' \<and>
   InferDefaultAlias ''miner'' = ''miner''"
  using InferDefaultAlias_rule [of "''count(t.value)''"]
    InferDefaultAlias_rule [of "''t.block_number''"]
    InferDefaultAlias_rule [of "''miner''"]
  by simp

text \<open>
  The claim as the specification states it (the qualifier is removed first) fails
  for the qualified map access of its own example.
\<close>

theorem InferDefaultAlias_keeps_qualified_index:
  "InferDefaultAlias ''e.parameters['from']'' = ''e.parameters['from']'' \<and>
   InferDefaultAlias_spec ''e.parameters['from']'' = ''parameters['from']''"
  by (simp add: InferDefaultAlias_def InferDefaultAlias_spec_def contains_char
      infer_split_char)

section \<open>Merging two schemas (claim C3)\<close>

text \<open>
  Claim C3. For every pair of schemas \<open>A\<close> and \<open>B\<close>, the merged schema has exactly the
  columns of \<open>A\<close> and of \<open>B\<close>; a column of only one schema keeps the type it has there, a
  column of both has the union of the two types; and the (name, type) pairs of
  \<open>MergeSchemas A B\<close> are those of \<open>MergeSchemas B A\<close>.
\<close>

theorem MergeSchemas_columns:
  "dom (MergeSchemas A B) = dom A \<union> dom B \<and>
   (\<forall>K a. A K = Some a \<and> B K = None \<longrightarrow> MergeSchemas A B K = Some a) \<and>
   (\<forall>K b. A K = None \<and> B K = Some b \<longrightarrow> MergeSchemas A B K = Some b) \<and>
   (\<forall>K a b. A K = Some a \<and> B K = Some b \<longrightarrow> MergeSchemas A B K = Some (a \<union> b)) \<and>
   Map.graph (MergeSchemas A B) = Map.graph (MergeSchemas B A)"
proof -
  have keys: "dom (MergeSchemas A B) = dom A \<union> dom B"
    by (auto simp: MergeSchemas_def dom_def split: option.splits)
  have commute: "MergeSchemas A B = MergeSchemas B A"
    by (rule ext) (simp add: MergeSchemas_def Un_commute split: option.splits)
  have cases: "(\<forall>K a. A K = Some a \<and> B K = None \<longrightarrow> MergeSchemas A B K = Some a) \<and>
     (\<forall>K b. A K = None \<and> B K = Some b \<longrightarrow> MergeSchemas A B K = Some b) \<and>
     (\<forall>K a b. A K = Some a \<and> B K = Some b \<longrightarrow> MergeSchemas A B K = Some (a \<union> b))"
    by (simp add: MergeSchemas_def)
  from commute have "Map.graph (MergeSchemas A B) = Map.graph (MergeSchemas B A)"
    by simp
  with keys cases show ?thesis by blast
qed

theorem MergeSchemas_columns_witness:
  "MergeSchemas (schema_of TransactionsSchema) (schema_of TransfersSchema) ''gas'' =
     Some {''uint64''} \<and>
   MergeSchemas (schema_of TransactionsSchema) (schema_of TransfersSchema) ''token_address'' =
     Some {''Hex''} \<and>
   MergeSchemas (schema_of TransactionsSchema) (schema_of TransfersSchema) ''value'' =
     Some ({''String''} \<union> {''uint256''}) \<and>
   Map.graph (MergeSchemas (schema_of TransactionsSchema) (schema_of TransfersSchema)) =
     Map.graph (MergeSchemas (schema_of TransfersSchema) (schema_of TransactionsSchema))"
proof -
  let ?A = "schema_of TransactionsSchema" and ?B = "schema_of TransfersSchema"
  have gas: "?A ''gas'' = Some {''uint64''} \<and> ?B ''gas'' = None"
    by (simp add: schema_of_def TransactionsSchema_def TransfersSchema_def)
  have token: "?A ''token_address'' = None \<and> ?B ''token_address'' = Some {''Hex''}"
    by (simp add: schema_of_def TransactionsSchema_def TransfersSchema_def)
  have val: "?A ''value'' = Some {''String''} \<and> ?B ''value'' = Some {''uint256''}"
    by (simp add: schema_of_def TransactionsSchema_def TransfersSchema_def)
  from MergeSchemas_columns [of ?A ?B] gas token val show ?thesis
    by blast
qed

section \<open>Normalization (claim C8)\<close>

lemma lower_char_idem: "lower_char (lower_char c) = lower_char c"
  by (auto simp: lower_char_def Let_def)

lemma lower_char_space: "lower_char (CHR '' '') = CHR '' ''"
  by (simp add: lower_char_def)

lemma Lowercase_fixed: "Lowercase s = s \<longleftrightarrow> (\<forall>c \<in> set s. lower_char c = c)"
  unfolding Lowercase_def by (induction s) auto

lemma Lowercase_Lowercase: "Lowercase (Lowercase s) = Lowercase s"
  by (simp add: Lowercase_def lower_char_idem)

text \<open>A collapsed string has no line feed, carriage return or tab and no two adjacent spaces.\<close>

definition collapsed :: "string \<Rightarrow> bool" where
  "collapsed s \<longleftrightarrow>
     CHR 0x0A \<notin> set s \<and> CHR 0x0D \<notin> set s \<and> CHR 0x09 \<notin> set s \<and> \<not> contains ''  '' s"

text \<open>One replacement step of \<open>CollapseWhitespace\<close>, or \<open>None\<close> when no template matches.\<close>

definition ws_step :: "string \<Rightarrow> string option" where
  "ws_step s =
     (case infer_split [CHR 0x0A] s of
        Some (a, b) \<Rightarrow> Some (a @ '' '' @ b)
      | None \<Rightarrow>
     (case infer_split [CHR 0x0D] s of
        Some (a, b) \<Rightarrow> Some (a @ '' '' @ b)
      | None \<Rightarrow>
     (case infer_split [CHR 0x09] s of
        Some (a, b) \<Rightarrow> Some (a @ '' '' @ b)
      | None \<Rightarrow>
     (case infer_split ''  '' s of
        Some (a, b) \<Rightarrow> Some (a @ '' '' @ b)
      | None \<Rightarrow> None))))"

lemma CollapseWhitespace_step:
  "CollapseWhitespace s = (case ws_step s of Some s' \<Rightarrow> CollapseWhitespace s' | None \<Rightarrow> s)"
  by (subst CollapseWhitespace.simps) (simp add: ws_step_def split: option.splits)

lemma ws_step_None: "ws_step s = None \<longleftrightarrow> collapsed s"
  by (auto simp: ws_step_def collapsed_def contains_def infer_split_char
      split: option.splits if_splits)

lemma ws_step_Some:
  assumes "ws_step s = Some s'"
  shows "ws_weight s' < ws_weight s \<and> set s' \<subseteq> insert (CHR '' '') (set s)"
proof -
  from assms obtain d a b where d: "infer_split d s = Some (a, b)" "s' = a @ '' '' @ b"
    "d = [CHR 0x0A] \<or> d = [CHR 0x0D] \<or> d = [CHR 0x09] \<or> d = ''  ''"
    by (auto simp: ws_step_def split: option.splits)
  from d(1) have s: "s = a @ d @ b" by (rule infer_split_Some)
  from d(3) have "ws_weight (a @ '' '' @ b) < ws_weight (a @ d @ b)"
    using ws_weight_char [of "CHR 0x0A" a b] ws_weight_char [of "CHR 0x0D" a b]
      ws_weight_char [of "CHR 0x09" a b] ws_weight_spaces [of a b]
    by auto
  moreover have "set (a @ '' '' @ b) \<subseteq> insert (CHR '' '') (set (a @ d @ b))" by auto
  ultimately show ?thesis using s d(2) by simp
qed

lemma CollapseWhitespace_collapsed_id: "collapsed s \<Longrightarrow> CollapseWhitespace s = s"
proof -
  assume "collapsed s"
  then have "ws_step s = None" by (simp add: ws_step_None)
  then show ?thesis by (subst CollapseWhitespace_step) simp
qed

lemma CollapseWhitespace_result:
  "collapsed (CollapseWhitespace s) \<and>
   set (CollapseWhitespace s) \<subseteq> insert (CHR '' '') (set s)"
proof (induction s rule: measure_induct_rule [of ws_weight])
  case (less s)
  show ?case
  proof (cases "ws_step s")
    case None
    then have "collapsed s" by (simp add: ws_step_None)
    then show ?thesis by (auto simp: CollapseWhitespace_collapsed_id)
  next
    case (Some s')
    then have w: "ws_weight s' < ws_weight s" and sub: "set s' \<subseteq> insert (CHR '' '') (set s)"
      using ws_step_Some by blast+
    from Some have "CollapseWhitespace s = CollapseWhitespace s'"
      by (subst CollapseWhitespace_step) simp
    with less [OF w] sub show ?thesis by auto
  qed
qed

lemma collapsed_CollapseWhitespace: "collapsed (CollapseWhitespace s)"
  using CollapseWhitespace_result by blast

lemma set_CollapseWhitespace: "set (CollapseWhitespace s) \<subseteq> insert (CHR '' '') (set s)"
  using CollapseWhitespace_result by blast

lemma TrimStart_dropWhile: "TrimStart s = dropWhile WhitespaceChar s"
  by (induction s) auto

lemma TrimEnd_dropWhile: "TrimEnd s = rev (dropWhile WhitespaceChar (rev s))"
proof (induction s rule: TrimEnd.induct)
  case (1 s)
  show ?case
  proof (cases s rule: rev_cases)
    case Nil
    then show ?thesis by (subst TrimEnd.simps) simp
  next
    case (snoc ys y)
    show ?thesis
    proof (cases "WhitespaceChar y")
      case True
      with snoc have "TrimEnd s = TrimEnd ys" by (subst TrimEnd.simps) simp
      moreover from 1 snoc True have "TrimEnd ys = rev (dropWhile WhitespaceChar (rev ys))"
        by simp
      ultimately show ?thesis using snoc True by simp
    next
      case False
      with snoc have "TrimEnd s = s" by (subst TrimEnd.simps) simp
      with snoc False show ?thesis by simp
    qed
  qed
qed

text \<open>A trimmed string neither starts nor ends with a whitespace character.\<close>

definition trimmed :: "string \<Rightarrow> bool" where
  "trimmed s \<longleftrightarrow> s = [] \<or> (\<not> WhitespaceChar (hd s) \<and> \<not> WhitespaceChar (last s))"

lemma dropWhile_hd: "s \<noteq> [] \<Longrightarrow> \<not> P (hd s) \<Longrightarrow> dropWhile P s = s"
  by (cases s) auto

lemma last_dropWhile_nonempty: "dropWhile P s \<noteq> [] \<Longrightarrow> last (dropWhile P s) = last s"
  by (induction s) (auto split: if_splits)

lemma Trim_trimmed_id: "trimmed s \<Longrightarrow> Trim s = s"
proof (cases s rule: rev_cases)
  case Nil
  then show ?thesis by (simp add: Trim_def TrimStart_dropWhile TrimEnd_dropWhile)
next
  case (snoc ys y)
  assume "trimmed s"
  with snoc have y: "\<not> WhitespaceChar y" and h: "\<not> WhitespaceChar (hd s)"
    by (auto simp: trimmed_def)
  from snoc y have "TrimEnd s = s" by (simp add: TrimEnd_dropWhile)
  moreover from snoc h have "dropWhile WhitespaceChar s = s"
    by (intro dropWhile_hd) auto
  ultimately show ?thesis by (simp add: Trim_def TrimStart_dropWhile)
qed

lemma Trim_sublist: "\<exists>p q. s = p @ Trim s @ q"
proof -
  have "rev (takeWhile WhitespaceChar (rev s) @ dropWhile WhitespaceChar (rev s)) = s"
    by simp
  then have 1: "s = TrimEnd s @ rev (takeWhile WhitespaceChar (rev s))"
    unfolding rev_append by (simp add: TrimEnd_dropWhile)
  have "takeWhile WhitespaceChar (TrimEnd s) @ dropWhile WhitespaceChar (TrimEnd s) = TrimEnd s"
    by simp
  then have 2: "TrimEnd s = takeWhile WhitespaceChar (TrimEnd s) @ Trim s"
    by (simp add: Trim_def TrimStart_dropWhile)
  have "s = takeWhile WhitespaceChar (TrimEnd s) @ Trim s @
      rev (takeWhile WhitespaceChar (rev s))"
    by (subst 1, subst 2) simp
  then show ?thesis by blast
qed

lemma trimmed_Trim: "trimmed (Trim s)"
proof (cases "Trim s = []")
  case True
  then show ?thesis by (simp add: trimmed_def)
next
  case False
  have start: "\<not> WhitespaceChar (hd (Trim s))"
    using False hd_dropWhile [of WhitespaceChar "TrimEnd s"]
    by (simp add: Trim_def TrimStart_dropWhile)
  have e: "TrimEnd s \<noteq> []" using False by (auto simp: Trim_def)
  then have "dropWhile WhitespaceChar (rev s) \<noteq> []" by (simp add: TrimEnd_dropWhile)
  then have "\<not> WhitespaceChar (hd (dropWhile WhitespaceChar (rev s)))"
    by (rule hd_dropWhile)
  with e have "\<not> WhitespaceChar (last (TrimEnd s))"
    by (simp add: TrimEnd_dropWhile last_rev)
  moreover have "last (Trim s) = last (TrimEnd s)"
    using False by (simp add: Trim_def TrimStart_dropWhile last_dropWhile_nonempty)
  ultimately show ?thesis using start by (simp add: trimmed_def)
qed

lemma sublist_collapsed: "collapsed (p @ u @ q) \<Longrightarrow> collapsed u"
proof -
  assume c: "collapsed (p @ u @ q)"
  have "\<not> contains ''  '' u"
  proof
    assume "contains ''  '' u"
    then obtain a b where "u = a @ ''  '' @ b" by (auto simp: contains_iff)
    then have "p @ u @ q = (p @ a) @ ''  '' @ (b @ q)" by simp
    then have "contains ''  '' (p @ u @ q)" unfolding contains_iff by blast
    with c show False by (simp add: collapsed_def)
  qed
  with c show ?thesis by (auto simp: collapsed_def)
qed

lemma collapsed_Trim: "collapsed s \<Longrightarrow> collapsed (Trim s)"
proof -
  assume c: "collapsed s"
  obtain p q where "s = p @ Trim s @ q" using Trim_sublist by blast
  with c have "collapsed (p @ Trim s @ q)" by simp
  then show ?thesis by (rule sublist_collapsed)
qed

lemma set_Trim: "set (Trim s) \<subseteq> set s"
proof -
  obtain p q where "s = p @ Trim s @ q" using Trim_sublist by blast
  then have "set s = set p \<union> set (Trim s) \<union> set q" by (metis set_append Un_assoc)
  then show ?thesis by auto
qed

text \<open>The shape of every normalized string.\<close>

definition normal_form :: "string \<Rightarrow> bool" where
  "normal_form s \<longleftrightarrow> Lowercase s = s \<and> collapsed s \<and> trimmed s"

lemma normal_form_Trim: "Lowercase s = s \<Longrightarrow> collapsed s \<Longrightarrow> normal_form (Trim s)"
  using set_Trim [of s] by (auto simp: normal_form_def Lowercase_fixed collapsed_Trim trimmed_Trim)

lemma normal_form_prepared: "normal_form (Trim (CollapseWhitespace (Lowercase s)))"
proof (rule normal_form_Trim)
  have "\<forall>c \<in> set (CollapseWhitespace (Lowercase s)). lower_char c = c"
    using set_CollapseWhitespace [of "Lowercase s"]
    by (auto simp: Lowercase_def lower_char_idem lower_char_space)
  then show "Lowercase (CollapseWhitespace (Lowercase s)) = CollapseWhitespace (Lowercase s)"
    by (simp add: Lowercase_fixed)
  show "collapsed (CollapseWhitespace (Lowercase s))" by (rule collapsed_CollapseWhitespace)
qed

lemma normal_form_StripSemicolon: "normal_form s \<Longrightarrow> normal_form (StripSemicolon s)"
proof (cases "s \<noteq> [] \<and> last s = CHR '';''")
  case False
  assume "normal_form s"
  with False show ?thesis by (auto simp: StripSemicolon_def)
next
  case True
  assume n: "normal_form s"
  from True have s: "s = [] @ butlast s @ [last s]"
    using append_butlast_last_id [of s] by simp
  from n have "collapsed ([] @ butlast s @ [last s])" using s by (simp add: normal_form_def)
  then have "collapsed (butlast s)" by (rule sublist_collapsed)
  moreover have "Lowercase (butlast s) = butlast s"
    using n by (auto simp: normal_form_def Lowercase_fixed dest: in_set_butlastD)
  ultimately have "normal_form (Trim (butlast s))" by (rule normal_form_Trim [rotated])
  with True show ?thesis by (simp add: StripSemicolon_def)
qed

lemma normal_form_Normalize: "normal_form (Normalize s)"
  unfolding Normalize_def by (rule normal_form_StripSemicolon) (rule normal_form_prepared)

lemma Normalize_normal_form: "normal_form s \<Longrightarrow> Normalize s = StripSemicolon s"
  by (simp add: Normalize_def normal_form_def CollapseWhitespace_collapsed_id Trim_trimmed_id)

text \<open>
  Claim C8, as amended. Normalizing a normalized string changes nothing exactly when the
  normalized string does not end with a semicolon: \<open>StripSemicolon\<close> removes one
  semicolon, so a text that ends with two keeps one, and a second pass removes it.
\<close>

theorem Normalize_idempotent_iff:
  "Normalize (Normalize s) = Normalize s \<longleftrightarrow>
   \<not> (Normalize s \<noteq> [] \<and> last (Normalize s) = CHR '';'')"
proof -
  let ?n = "Normalize s"
  have step: "Normalize ?n = StripSemicolon ?n"
    by (rule Normalize_normal_form) (rule normal_form_Normalize)
  show ?thesis
  proof (cases "?n \<noteq> [] \<and> last ?n = CHR '';''")
    case True
    then have "StripSemicolon ?n = Trim (butlast ?n)" by (simp add: StripSemicolon_def)
    moreover have "length (Trim (butlast ?n)) \<le> length (butlast ?n)" by (rule length_Trim)
    moreover from True have "length (butlast ?n) < length ?n" by simp
    ultimately have "StripSemicolon ?n \<noteq> ?n" by auto
    with step True show ?thesis by simp
  next
    case False
    then have "StripSemicolon ?n = ?n" by (auto simp: StripSemicolon_def)
    with step False show ?thesis by simp
  qed
qed

theorem Normalize_idempotent_iff_witness:
  "\<not> (Normalize ''  SELECT  a FROM base.blocks ; '' \<noteq> [] \<and>
      last (Normalize ''  SELECT  a FROM base.blocks ; '') = CHR '';'') \<and>
   Normalize (Normalize ''  SELECT  a FROM base.blocks ; '') =
     Normalize ''  SELECT  a FROM base.blocks ; ''"
proof -
  have "Normalize ''  SELECT  a FROM base.blocks ; '' = ''select a from base.blocks''"
    by code_simp
  then have "\<not> (Normalize ''  SELECT  a FROM base.blocks ; '' \<noteq> [] \<and>
      last (Normalize ''  SELECT  a FROM base.blocks ; '') = CHR '';'')"
    by simp
  with Normalize_idempotent_iff [of "''  SELECT  a FROM base.blocks ; ''"]
  show ?thesis by blast
qed

text \<open>
  The claim as stated, idempotence for every input and in particular for inputs that end
  in several semicolons, fails for \<open>a;;\<close>.
\<close>

theorem Normalize_two_semicolons:
  "Normalize ''a;;'' = ''a;'' \<and> Normalize (Normalize ''a;;'') = ''a''"
  by code_simp

section \<open>Casts in the expression resolver (claim C5)\<close>

lemma infer_split_first:
  "d \<noteq> [] \<Longrightarrow> hd d \<notin> set x \<Longrightarrow> infer_split d (x @ d @ t) = Some (x, t)"
proof (induction x)
  case Nil
  then show ?case by (cases d) auto
next
  case (Cons c x)
  then have "\<not> prefix d (c # x @ d @ t)" by (cases d) auto
  with Cons show ?case by simp
qed

lemma match_wrapped_last:
  "s \<noteq> [] \<Longrightarrow> suf \<noteq> [] \<Longrightarrow> last s \<noteq> last suf \<Longrightarrow> match_wrapped pre suf s = None"
  by (auto simp: match_wrapped_def suffix_def)

lemma match_template_last:
  "s \<noteq> [] \<Longrightarrow> suf \<noteq> [] \<Longrightarrow> last s \<noteq> last suf \<Longrightarrow> match_template pre d suf s = None"
  by (simp add: match_template_def match_wrapped_last)

lemma match_wrapped_exact: "match_wrapped pre suf (pre @ m @ suf) = Some m"
proof -
  have "pre @ m @ suf = (pre @ m) @ suf" by simp
  then have "suffix suf (pre @ m @ suf)" unfolding suffix_def by blast
  then show ?thesis by (simp add: match_wrapped_def)
qed

lemma dom_schema_of: "dom (schema_of cols) = fst ` set cols"
proof -
  have "dom (schema_of cols) = dom (map_of cols)"
    by (auto simp: schema_of_def dom_def)
  then show ?thesis by (simp add: dom_map_of_conv_image_fst)
qed

text \<open>
  Claim C5, as amended. The resolver of the text path has no rule for the double-colon
  cast. For every schema without a column name that contains \<open>::\<close>, and every type name
  \<open>t\<close> that is not empty, has no dot and does not end with a closing bracket or
  parenthesis, the expression \<open>x::t\<close> resolves to \<open>unknown\<close>, whatever \<open>x\<close> and \<open>t\<close> are.
  Only \<open>cast(x as t)\<close> is resolved through the type-name mapping: when the whole text is
  not a column name and has no dot, and \<open>x\<close> has no space, its type is \<open>MapSqlType\<close> of
  the trimmed \<open>t\<close>, independent of \<open>x\<close>.
\<close>

theorem ResolveExpression_casts:
  "((\<forall>k \<in> dom Schema. \<not> contains ''::'' k) \<and> t \<noteq> [] \<and> CHR ''.'' \<notin> set t \<and>
     last t \<noteq> CHR '')'' \<and> last t \<noteq> CHR '']'' \<longrightarrow>
     ResolveExpression (x @ ''::'' @ t) Schema = {Unknown}) \<and>
   (Schema (''cast('' @ x @ '' as '' @ t @ '')'') = None \<and> CHR ''.'' \<notin> set x \<and>
     CHR ''.'' \<notin> set t \<and> CHR '' '' \<notin> set x \<longrightarrow>
     ResolveExpression (''cast('' @ x @ '' as '' @ t @ '')'') Schema = {MapSqlType (Trim t)})"
proof (intro conjI impI)
  assume h: "(\<forall>k \<in> dom Schema. \<not> contains ''::'' k) \<and> t \<noteq> [] \<and> CHR ''.'' \<notin> set t \<and>
     last t \<noteq> CHR '')'' \<and> last t \<noteq> CHR '']''"
  show "ResolveExpression (x @ ''::'' @ t) Schema = {Unknown}"
  proof (induction x rule: measure_induct_rule [of length])
    case (less x)
    let ?e = "x @ ''::'' @ t"
    have "contains ''::'' ?e" unfolding contains_iff by blast
    with h have nocol: "Schema ?e = None" by (auto simp: dom_def)
    show ?case
    proof (cases "CHR ''.'' \<in> set x")
      case True
      let ?x' = "tl (dropWhile (\<lambda>c. c \<noteq> CHR ''.'') x)"
      from True have ne: "dropWhile (\<lambda>c. c \<noteq> CHR ''.'') x \<noteq> []" by simp
      from True have "dropWhile (\<lambda>c. c \<noteq> CHR ''.'') ?e =
          dropWhile (\<lambda>c. c \<noteq> CHR ''.'') x @ ''::'' @ t"
        by (simp add: dropWhile_append1)
      with ne have rest: "tl (dropWhile (\<lambda>c. c \<noteq> CHR ''.'') ?e) = ?x' @ ''::'' @ t"
        by simp
      have "length (dropWhile (\<lambda>c. c \<noteq> CHR ''.'') x) \<le> length x"
        by (rule length_dropWhile_le)
      with ne have "length ?x' < length x" by (cases "dropWhile (\<lambda>c. c \<noteq> CHR ''.'') x") auto
      then have "ResolveExpression (?x' @ ''::'' @ t) Schema = {Unknown}" by (rule less)
      moreover from True nocol rest
      have "ResolveExpression ?e Schema = ResolveExpression (?x' @ ''::'' @ t) Schema"
        by (subst ResolveExpression.simps) (simp add: infer_split_char)
      ultimately show ?thesis by simp
    next
      case False
      with h have nodot: "infer_split ''.'' ?e = None" by (simp add: infer_split_char)
      from h have ne: "?e \<noteq> []" and l: "last ?e = last t" by simp_all
      from ne l h have
        "match_template [] [CHR ''['', CHR 0x27] [CHR 0x27, CHR '']''] ?e = None"
        "match_template [] [CHR ''['', CHR 0x22] [CHR 0x22, CHR '']''] ?e = None"
        "match_wrapped ''cast('' '')'' ?e = None"
        "match_wrapped ''count('' '')'' ?e = None"
        "match_wrapped ''sum('' '')'' ?e = None"
        "match_wrapped ''avg('' '')'' ?e = None"
        "match_wrapped ''min('' '')'' ?e = None"
        "match_wrapped ''max('' '')'' ?e = None"
        by (simp_all add: match_template_last match_wrapped_last)
      with nocol nodot show ?thesis
        by (subst ResolveExpression.simps) simp
    qed
  qed
next
  assume h: "Schema (''cast('' @ x @ '' as '' @ t @ '')'') = None \<and> CHR ''.'' \<notin> set x \<and>
     CHR ''.'' \<notin> set t \<and> CHR '' '' \<notin> set x"
  let ?e = "''cast('' @ x @ '' as '' @ t @ '')''"
  from h have nodot: "infer_split ''.'' ?e = None" by (simp add: infer_split_char)
  have ne: "?e \<noteq> []" and l: "last ?e = CHR '')''" by simp_all
  from ne l have idx:
    "match_template [] [CHR ''['', CHR 0x27] [CHR 0x27, CHR '']''] ?e = None"
    "match_template [] [CHR ''['', CHR 0x22] [CHR 0x22, CHR '']''] ?e = None"
    by (simp_all add: match_template_last)
  have "match_wrapped ''cast('' '')'' (''cast('' @ (x @ '' as '' @ t) @ '')'') =
      Some (x @ '' as '' @ t)"
    by (rule match_wrapped_exact)
  then have inner: "match_wrapped ''cast('' '')'' ?e = Some (x @ '' as '' @ t)" by simp
  from h have target: "infer_split '' as '' (x @ '' as '' @ t) = Some (x, t)"
    by (intro infer_split_first) simp_all
  from h nodot idx inner target show "ResolveExpression ?e Schema = {MapSqlType (Trim t)}"
    by (subst ResolveExpression.simps) simp
qed

theorem ResolveExpression_casts_witness:
  "ResolveExpression (''value'' @ ''::'' @ ''uint64'') (schema_of TransfersSchema) = {Unknown} \<and>
   ResolveExpression (''cast('' @ ''value'' @ '' as '' @ ''uint64'' @ '')'')
     (schema_of TransfersSchema) = {MapSqlType (Trim ''uint64'')}"
proof -
  have cols: "\<forall>k \<in> dom (schema_of TransfersSchema). \<not> contains ''::'' k"
    unfolding dom_schema_of by code_simp
  have nocol: "schema_of TransfersSchema (''cast('' @ ''value'' @ '' as '' @ ''uint64'' @ '')'') = None"
    by code_simp
  have chars: "''uint64'' \<noteq> [] \<and> CHR ''.'' \<notin> set ''uint64'' \<and> last ''uint64'' \<noteq> CHR '')'' \<and>
      last ''uint64'' \<noteq> CHR '']'' \<and> CHR ''.'' \<notin> set ''value'' \<and> CHR '' '' \<notin> set ''value''"
    by simp
  from ResolveExpression_casts [of "schema_of TransfersSchema" "''uint64''" "''value''"]
    cols nocol chars
  show ?thesis by blast
qed

text \<open>
  The claim as stated fails: the double-colon cast of a column is \<open>unknown\<close>, while the
  \<open>cast\<close> of the same column to the same type is a numeric string.
\<close>

theorem ResolveExpression_double_colon_unknown:
  "ResolveExpression ''value::uint64'' (schema_of TransfersSchema) = {Unknown} \<and>
   ResolveExpression ''cast(value as uint64)'' (schema_of TransfersSchema) = {NumericString}"
  by code_simp

section \<open>Resolution of a query text (claim C1)\<close>











section \<open>Parameters of a narrowed event (claim C4)\<close>

text \<open>The interface description of the tests: two events and a function.\<close>

definition erc20Abi :: "AbiItem list" where
  "erc20Abi =
     [AbiEvent ''Transfer''
        [AbiParameter ''address'' (Some ''from'') None,
         AbiParameter ''address'' (Some ''to'') None,
         AbiParameter ''uint256'' (Some ''value'') None],
      AbiEvent ''Approval''
        [AbiParameter ''address'' (Some ''owner'') None,
         AbiParameter ''address'' (Some ''spender'') None,
         AbiParameter ''uint256'' (Some ''value'') None],
      AbiOther]"

lemma join_Cons: "join sep (x # xs) = x @ concat (map (\<lambda>y. sep @ y) xs)"
  by (induction xs arbitrary: x) auto

lemma JoinParamTypes_plain:
  "\<forall>P \<in> set ps. param_type P \<noteq> [] \<and> FormatParamType P = param_type P \<Longrightarrow> acc \<noteq> [] \<Longrightarrow>
   JoinParamTypes ps acc = acc @ concat (map (\<lambda>P. '','' @ param_type P) ps)"
  by (induction ps arbitrary: acc) auto

lemma JoinParamTypes_join:
  assumes "\<forall>P \<in> set ps. param_type P \<noteq> [] \<and> FormatParamType P = param_type P"
  shows "JoinParamTypes ps [] = join '','' (map param_type ps)"
proof (cases ps)
  case Nil
  then show ?thesis by simp
next
  case (Cons P ps')
  with assms have "JoinParamTypes ps' (param_type P) =
      param_type P @ concat (map (\<lambda>P. '','' @ param_type P) ps')"
    by (intro JoinParamTypes_plain) auto
  with Cons assms show ?thesis by (simp add: join_Cons comp_def)
qed

lemma FindParamByName_None:
  "FindParamByName ps Key = None \<longleftrightarrow> (\<forall>P \<in> set ps. param_name P \<noteq> Some Key)"
  by (induction ps) auto

lemma EventParamType_Variant:
  assumes "\<forall>E \<in> set A. is_event E \<and> CdpEventSignature E = sig \<longrightarrow>
      FindParamByName (event_inputs E) Key = None"
  shows "EventParamType A sig Key = {Variant}"
proof -
  have "List.map_filter (\<lambda>E. FindParamByName (event_inputs E) Key)
      (FindEventBySignature A sig) = []"
    using assms
    by (auto simp: List.map_filter_def filter_empty_conv FindEventBySignature_def
        ExtractEvents_def)
  then show ?thesis by (simp add: EventParamType_def Let_def)
qed

lemma set_map_filter_Some:
  "set (List.map_filter f xs) = {y. \<exists>x \<in> set xs. f x = Some y}"
  by (induction xs) (auto split: option.splits)

lemma FindParamByName_Some:
  "FindParamByName ps Key = Some P \<Longrightarrow> param_name P = Some Key \<and> P \<in> set ps"
  by (induction ps) (auto split: if_splits)

lemma EventParamType_found:
  assumes E: "E \<in> set A" "is_event E" "CdpEventSignature E = sig"
    and P: "FindParamByName (event_inputs E) Key = Some P"
    and same: "\<forall>E' \<in> set A. \<forall>P'. is_event E' \<and> CdpEventSignature E' = sig \<and>
      FindParamByName (event_inputs E') Key = Some P' \<longrightarrow> param_type P' = param_type P"
  shows "EventParamType A sig Key = {SolidityTypeToCdp (param_type P)}"
proof -
  define Es where "Es = FindEventBySignature A sig"
  define Ps where "Ps = List.map_filter (\<lambda>E. FindParamByName (event_inputs E) Key) Es"
  have Es: "set Es = {E' \<in> set A. is_event E' \<and> CdpEventSignature E' = sig}"
    by (auto simp: Es_def FindEventBySignature_def ExtractEvents_def)
  with E have inEs: "E \<in> set Es" by simp
  have Ps: "set Ps = {P'. \<exists>E' \<in> set Es. FindParamByName (event_inputs E') Key = Some P'}"
    unfolding Ps_def by (rule set_map_filter_Some)
  from inEs P have inPs: "P \<in> set Ps" unfolding Ps by blast
  have agree: "param_type P' = param_type P" if "P' \<in> set Ps" for P'
  proof -
    from that obtain E' where "E' \<in> set Es" "FindParamByName (event_inputs E') Key = Some P'"
      unfolding Ps by blast
    with Es same show ?thesis by blast
  qed
  have "(\<lambda>P. SolidityTypeToCdp (param_type P)) ` set Ps \<subseteq> {SolidityTypeToCdp (param_type P)}"
    using agree by auto
  moreover have "SolidityTypeToCdp (param_type P) \<in> (\<lambda>P. SolidityTypeToCdp (param_type P)) ` set Ps"
    using inPs by (rule imageI)
  ultimately have img: "(\<lambda>P. SolidityTypeToCdp (param_type P)) ` set Ps =
      {SolidityTypeToCdp (param_type P)}"
    by blast
  from inEs have "Es \<noteq> []" by auto
  moreover from inPs have "Ps \<noteq> []" by auto
  ultimately show ?thesis
    using img by (simp add: EventParamType_def Let_def Es_def [symmetric] Ps_def [symmetric])
qed

text \<open>
  Claim C4. The map column \<open>parameters\<close> of the events table has the type
  \<open>Record<string, Variant>\<close>, and for this base type, every interface list \<open>A\<close>, every
  signature and every key:
  without narrowing the type of \<open>parameters[Key]\<close> is the variant, whether interfaces
  are supplied or not; with a narrowed signature it is the variant when no event of the
  interface list with that signature has a parameter of that name (in particular when no
  event has that signature); and when an event with the signature has the parameter, it
  is the response type of the declared Solidity type (all events with that signature
  agreeing on the declared type). The response types are: \<open>address\<close> a hex string,
  \<open>bool\<close> a boolean, \<open>uint*\<close> and \<open>int*\<close> a numeric string, \<open>string\<close> a string, \<open>bytes*\<close> a
  hex string, and a string for everything else. The signature of an event without tuple
  parameters is its name followed by the comma-separated parameter types in parentheses.
\<close>

theorem ResolveMapType_rule:
  "FullRow (schema_of EventsSchema) ''parameters'' = Some {MapOf Variant} \<and>
   ResolveMapType {MapOf Variant} A None Key = {Variant} \<and>
   ((\<forall>E \<in> set A. is_event E \<longrightarrow> CdpEventSignature E \<noteq> sig) \<longrightarrow>
      ResolveMapType {MapOf Variant} A (Some sig) Key = {Variant}) \<and>
   ((\<forall>E \<in> set A. is_event E \<and> CdpEventSignature E = sig \<longrightarrow>
        (\<forall>P \<in> set (event_inputs E). param_name P \<noteq> Some Key)) \<longrightarrow>
      ResolveMapType {MapOf Variant} A (Some sig) Key = {Variant}) \<and>
   (\<forall>E P. E \<in> set A \<and> is_event E \<and> CdpEventSignature E = sig \<and>
        FindParamByName (event_inputs E) Key = Some P \<and>
        (\<forall>E' \<in> set A. \<forall>P'. is_event E' \<and> CdpEventSignature E' = sig \<and>
           FindParamByName (event_inputs E') Key = Some P' \<longrightarrow> param_type P' = param_type P) \<longrightarrow>
      param_name P = Some Key \<and> P \<in> set (event_inputs E) \<and>
      ResolveMapType {MapOf Variant} A (Some sig) Key = {SolidityTypeToCdp (param_type P)}) \<and>
   SolidityTypeToCdp ''address'' = HexString \<and>
   SolidityTypeToCdp ''bool'' = Boolean \<and>
   (prefix ''uint'' T \<or> prefix ''int'' T \<longrightarrow> SolidityTypeToCdp T = NumericString) \<and>
   SolidityTypeToCdp ''string'' = PlainString \<and>
   (prefix ''bytes'' T \<longrightarrow> SolidityTypeToCdp T = HexString) \<and>
   (T \<noteq> ''address'' \<and> T \<noteq> ''bool'' \<and> \<not> prefix ''uint'' T \<and> \<not> prefix ''int'' T \<and>
      \<not> prefix ''bytes'' T \<longrightarrow> SolidityTypeToCdp T = PlainString) \<and>
   ((\<forall>P \<in> set ps. param_type P \<noteq> [] \<and> FormatParamType P = param_type P) \<longrightarrow>
      CdpEventSignature (AbiEvent n ps) = n @ ''('' @ join '','' (map param_type ps) @ '')'')"
proof -
  have base: "FullRow (schema_of EventsSchema) ''parameters'' = Some {MapOf Variant}"
  proof -
    have "MapSqlType (Lowercase ''Map(String, Variant(Bool, Int256, String, uint256))'') =
        MapOf Variant"
      by code_simp
    then show ?thesis by (simp add: FullRow_def schema_of_def EventsSchema_def column_type_def)
  qed
  have unnarrowed: "ResolveMapType {MapOf Variant} A None Key = {Variant}"
    by (simp add: ResolveMapType_def base_value_def)
  have missing: "ResolveMapType {MapOf Variant} A (Some sig) Key = {Variant}"
    if "\<forall>E \<in> set A. is_event E \<and> CdpEventSignature E = sig \<longrightarrow>
        (\<forall>P \<in> set (event_inputs E). param_name P \<noteq> Some Key)"
  proof -
    from that have "EventParamType A sig Key = {Variant}"
      by (intro EventParamType_Variant) (simp add: FindParamByName_None)
    then show ?thesis by (simp add: ResolveMapType_def base_value_def)
  qed
  have unmatched: "ResolveMapType {MapOf Variant} A (Some sig) Key = {Variant}"
    if "\<forall>E \<in> set A. is_event E \<longrightarrow> CdpEventSignature E \<noteq> sig"
    using that by (intro missing) blast
  have found: "param_name P = Some Key \<and> P \<in> set (event_inputs E) \<and>
      ResolveMapType {MapOf Variant} A (Some sig) Key = {SolidityTypeToCdp (param_type P)}"
    if h: "E \<in> set A \<and> is_event E \<and> CdpEventSignature E = sig \<and>
        FindParamByName (event_inputs E) Key = Some P \<and>
        (\<forall>E' \<in> set A. \<forall>P'. is_event E' \<and> CdpEventSignature E' = sig \<and>
           FindParamByName (event_inputs E') Key = Some P' \<longrightarrow> param_type P' = param_type P)"
    for E P
  proof -
    from h have sound: "param_name P = Some Key \<and> P \<in> set (event_inputs E)"
      by (intro FindParamByName_Some) simp
    from h have "EventParamType A sig Key = {SolidityTypeToCdp (param_type P)}"
      by (intro EventParamType_found [of E]) blast+
    moreover from h have "A \<noteq> []" by auto
    ultimately show ?thesis using h sound by (simp add: ResolveMapType_def)
  qed
  have types: "SolidityTypeToCdp ''address'' = HexString \<and>
     SolidityTypeToCdp ''bool'' = Boolean \<and>
     (prefix ''uint'' T \<or> prefix ''int'' T \<longrightarrow> SolidityTypeToCdp T = NumericString) \<and>
     SolidityTypeToCdp ''string'' = PlainString \<and>
     (prefix ''bytes'' T \<longrightarrow> SolidityTypeToCdp T = HexString) \<and>
     (T \<noteq> ''address'' \<and> T \<noteq> ''bool'' \<and> \<not> prefix ''uint'' T \<and> \<not> prefix ''int'' T \<and>
        \<not> prefix ''bytes'' T \<longrightarrow> SolidityTypeToCdp T = PlainString)"
    by (auto simp: SolidityTypeToCdp_def prefix_def)
  have signature: "CdpEventSignature (AbiEvent n ps) =
      n @ ''('' @ join '','' (map param_type ps) @ '')''"
    if "\<forall>P \<in> set ps. param_type P \<noteq> [] \<and> FormatParamType P = param_type P"
    using that by (simp add: CdpEventSignature_def JoinParamTypes_join)
  have c3: "(\<forall>E \<in> set A. is_event E \<longrightarrow> CdpEventSignature E \<noteq> sig) \<longrightarrow>
      ResolveMapType {MapOf Variant} A (Some sig) Key = {Variant}"
    using unmatched by (rule impI)
  have c4: "(\<forall>E \<in> set A. is_event E \<and> CdpEventSignature E = sig \<longrightarrow>
        (\<forall>P \<in> set (event_inputs E). param_name P \<noteq> Some Key)) \<longrightarrow>
      ResolveMapType {MapOf Variant} A (Some sig) Key = {Variant}"
    using missing by (rule impI)
  have c5: "\<forall>E P. E \<in> set A \<and> is_event E \<and> CdpEventSignature E = sig \<and>
        FindParamByName (event_inputs E) Key = Some P \<and>
        (\<forall>E' \<in> set A. \<forall>P'. is_event E' \<and> CdpEventSignature E' = sig \<and>
           FindParamByName (event_inputs E') Key = Some P' \<longrightarrow> param_type P' = param_type P) \<longrightarrow>
      param_name P = Some Key \<and> P \<in> set (event_inputs E) \<and>
      ResolveMapType {MapOf Variant} A (Some sig) Key = {SolidityTypeToCdp (param_type P)}"
    using found by (intro allI impI)
  have c7: "(\<forall>P \<in> set ps. param_type P \<noteq> [] \<and> FormatParamType P = param_type P) \<longrightarrow>
      CdpEventSignature (AbiEvent n ps) = n @ ''('' @ join '','' (map param_type ps) @ '')''"
    using signature by (rule impI)
  show ?thesis
    using base unnarrowed c3 c4 c5 types c7
    apply -
    apply (elim conjE)
    apply (intro conjI; assumption)
    done
qed

theorem ResolveMapType_rule_witness:
  "ResolveMapType {MapOf Variant} erc20Abi None ''from'' = {Variant} \<and>
   ResolveMapType {MapOf Variant} erc20Abi (Some ''SomeUnknownEvent(uint256)'') ''value'' =
     {Variant} \<and>
   ResolveMapType {MapOf Variant} erc20Abi (Some ''Transfer(address,address,uint256)'')
     ''unknownParam'' = {Variant} \<and>
   ResolveMapType {MapOf Variant} erc20Abi (Some ''Transfer(address,address,uint256)'')
     ''from'' = {HexString} \<and>
   ResolveMapType {MapOf Variant} erc20Abi (Some ''Transfer(address,address,uint256)'')
     ''value'' = {NumericString} \<and>
   CdpEventSignature (AbiEvent ''Transfer''
        [AbiParameter ''address'' (Some ''from'') None,
         AbiParameter ''address'' (Some ''to'') None,
         AbiParameter ''uint256'' (Some ''value'') None]) =
     ''Transfer'' @ ''('' @ join '','' [''address'', ''address'', ''uint256''] @ '')''"
proof -
  let ?sig = "''Transfer(address,address,uint256)''"
  let ?ps = "[AbiParameter ''address'' (Some ''from'') None,
         AbiParameter ''address'' (Some ''to'') None,
         AbiParameter ''uint256'' (Some ''value'') None]"
  let ?E = "AbiEvent ''Transfer'' ?ps"
  have sigE: "CdpEventSignature ?E = ?sig" by code_simp
  have sigA: "CdpEventSignature (AbiEvent ''Approval''
        [AbiParameter ''address'' (Some ''owner'') None,
         AbiParameter ''address'' (Some ''spender'') None,
         AbiParameter ''uint256'' (Some ''value'') None]) \<noteq> ?sig" by code_simp
  have w1: "ResolveMapType {MapOf Variant} erc20Abi None ''from'' = {Variant}"
    by (rule ResolveMapType_rule [THEN conjunct2, THEN conjunct1])
  have h2: "\<forall>E \<in> set erc20Abi. is_event E \<longrightarrow> CdpEventSignature E \<noteq> ''SomeUnknownEvent(uint256)''"
    by code_simp
  have w2: "ResolveMapType {MapOf Variant} erc20Abi (Some ''SomeUnknownEvent(uint256)'') ''value'' =
     {Variant}"
    using h2 by (rule ResolveMapType_rule [THEN conjunct2, THEN conjunct2, THEN conjunct1, THEN mp])
  have h3: "\<forall>E \<in> set erc20Abi. is_event E \<and> CdpEventSignature E = ?sig \<longrightarrow>
        (\<forall>P \<in> set (event_inputs E). param_name P \<noteq> Some ''unknownParam'')"
    by (simp add: erc20Abi_def)
  have w3: "ResolveMapType {MapOf Variant} erc20Abi (Some ?sig) ''unknownParam'' = {Variant}"
    using h3
    by (rule ResolveMapType_rule [THEN conjunct2, THEN conjunct2, THEN conjunct2, THEN conjunct1,
          THEN mp])
  have inA: "?E \<in> set erc20Abi \<and> is_event ?E" by (simp add: erc20Abi_def)
  have h4: "FindParamByName (event_inputs ?E) ''from'' = Some (AbiParameter ''address'' (Some ''from'') None) \<and>
      (\<forall>E' \<in> set erc20Abi. \<forall>P'. is_event E' \<and> CdpEventSignature E' = ?sig \<and>
           FindParamByName (event_inputs E') ''from'' = Some P' \<longrightarrow>
           param_type P' = param_type (AbiParameter ''address'' (Some ''from'') None))"
    using sigA by (auto simp: erc20Abi_def)
  have "ResolveMapType {MapOf Variant} erc20Abi (Some ?sig) ''from'' =
      {SolidityTypeToCdp (param_type (AbiParameter ''address'' (Some ''from'') None))}"
    using ResolveMapType_rule [of erc20Abi "''from''" ?sig, THEN conjunct2, THEN conjunct2,
        THEN conjunct2, THEN conjunct2, THEN conjunct1] inA sigE h4
    by blast
  then have w4: "ResolveMapType {MapOf Variant} erc20Abi (Some ?sig) ''from'' = {HexString}"
    by (simp add: SolidityTypeToCdp_def)
  have h5: "FindParamByName (event_inputs ?E) ''value'' = Some (AbiParameter ''uint256'' (Some ''value'') None) \<and>
      (\<forall>E' \<in> set erc20Abi. \<forall>P'. is_event E' \<and> CdpEventSignature E' = ?sig \<and>
           FindParamByName (event_inputs E') ''value'' = Some P' \<longrightarrow>
           param_type P' = param_type (AbiParameter ''uint256'' (Some ''value'') None))"
    using sigA by (auto simp: erc20Abi_def)
  have "ResolveMapType {MapOf Variant} erc20Abi (Some ?sig) ''value'' =
      {SolidityTypeToCdp (param_type (AbiParameter ''uint256'' (Some ''value'') None))}"
    using ResolveMapType_rule [of erc20Abi "''value''" ?sig, THEN conjunct2, THEN conjunct2,
        THEN conjunct2, THEN conjunct2, THEN conjunct1] inA sigE h5
    by blast
  then have w5: "ResolveMapType {MapOf Variant} erc20Abi (Some ?sig) ''value'' = {NumericString}"
    by (simp add: SolidityTypeToCdp_def)
  have h6: "\<forall>P \<in> set ?ps. param_type P \<noteq> [] \<and> FormatParamType P = param_type P"
    by simp
  have w6: "CdpEventSignature ?E =
     ''Transfer'' @ ''('' @ join '','' [''address'', ''address'', ''uint256''] @ '')''"
    using ResolveMapType_rule [of "[]" "[]" "[]" "[]" ?ps "''Transfer''"] h6
    by simp
  from w1 w2 w3 w4 w5 w6 show ?thesis by (intro conjI)
qed

section \<open>The order of the clauses (claim C2)\<close>

text \<open>
  The serialization rules of the specification, clause by clause: the optional \<open>WITH\<close>
  clause, \<open>SELECT\<close> with the optional \<open>DISTINCT\<close>, \<open>FROM\<close>, one text for every join,
  \<open>WHERE\<close>, \<open>GROUP BY\<close>, \<open>HAVING\<close>, \<open>ORDER BY\<close> and \<open>LIMIT\<close>. A table is aliased when its
  alias is present and not empty.
\<close>

definition spec_table :: "TableNode \<Rightarrow> string" where
  "spec_table t =
     (case t of Table name alias \<Rightarrow>
        (case alias of
           None \<Rightarrow> name
         | Some a \<Rightarrow> if a = [] then name else name @ '' AS '' @ a))"

definition spec_clauses :: "SelectQueryNode \<Rightarrow> string list" where
  "spec_clauses q =
     (if ctes q = [] then []
      else [''WITH '' @
            join '', ''
              (map (\<lambda>c. case c of Cte name sub \<Rightarrow> name @ '' AS ('' @ compileQuery sub @ '')'')
                 (ctes q))]) @
     [(if distinct' q then ''SELECT DISTINCT '' else ''SELECT '') @
      join '', '' (map compileNode (selections q))] @
     [''FROM '' @ spec_table (from' q)] @
     map (\<lambda>j. case j of Join type table on \<Rightarrow>
            JoinType_text type @ '' JOIN '' @ spec_table table @
            (case on of None \<Rightarrow> [] | Some condition \<Rightarrow> '' ON '' @ compileNode condition))
       (joins q) @
     (if where' q = [] then []
      else [''WHERE '' @ join '' AND '' (map compileNode (where' q))]) @
     (if groupBy q = [] then []
      else [''GROUP BY '' @ join '', '' (map compileNode (groupBy q))]) @
     (if having q = [] then []
      else [''HAVING '' @ join '' AND '' (map compileNode (having q))]) @
     (if orderBy q = [] then []
      else [''ORDER BY '' @
            join '', ''
              (map (\<lambda>i. case i of OrderByItem e direction \<Rightarrow>
                      compileNode e @
                      (case direction of None \<Rightarrow> [] | Some ASC \<Rightarrow> '' ASC'' | Some DESC \<Rightarrow> '' DESC''))
                 (orderBy q))]) @
     (case limit q of None \<Rightarrow> [] | Some n \<Rightarrow> [''LIMIT '' @ String_of_number n])"

lemma compileTable_spec: "compileTable t = spec_table t"
  by (cases t) (auto simp: spec_table_def split: option.splits)

lemma compileCte_spec:
  "compileCte = (\<lambda>c. case c of Cte name sub \<Rightarrow> name @ '' AS ('' @ compileQuery sub @ '')'')"
  by (rule ext) (simp split: CteNode.split)

lemma compileJoin_spec:
  "compileJoin = (\<lambda>j. case j of Join type table on \<Rightarrow>
      JoinType_text type @ '' JOIN '' @ spec_table table @
      (case on of None \<Rightarrow> [] | Some condition \<Rightarrow> '' ON '' @ compileNode condition))"
  by (rule ext) (simp add: compileTable_spec split: JoinNode.split option.split)

lemma compileOrderByItem_spec:
  "compileOrderByItem = (\<lambda>i. case i of OrderByItem e direction \<Rightarrow>
      compileNode e @
      (case direction of None \<Rightarrow> [] | Some ASC \<Rightarrow> '' ASC'' | Some DESC \<Rightarrow> '' DESC''))"
  by (rule ext)
     (simp add: Direction_text_def split: OrderByItemNode.split option.split Direction.split)

lemma compileQuery_spec_clauses: "compileQuery q = join '' '' (spec_clauses q)"
proof (cases q)
  case (SelectQuery n_ctes n_distinct n_selections n_from n_joins n_where n_groupBy
      n_having n_orderBy n_limit)
  then show ?thesis
    unfolding spec_clauses_def compileCte_spec [symmetric] compileJoin_spec [symmetric]
      compileOrderByItem_spec [symmetric]
    by (simp add: Let_def compileTable_spec split: option.split del: join.simps)
qed

text \<open>
  Claim C2. For every query node the compiled text is the clauses of the specification, in
  their order, joined by single spaces; an \<open>And\<close> node is its conditions joined by
  \<open>AND\<close> without parentheses, an \<open>Or\<close> node its conditions joined by \<open>OR\<close> in parentheses.
\<close>

theorem compileQuery_clauses:
  "compileQuery q = join '' '' (spec_clauses q) \<and>
   compileNode (And conditions) = join '' AND '' (map compileNode conditions) \<and>
   compileNode (Or conditions) = ''('' @ join '' OR '' (map compileNode conditions) @ '')''"
  using compileQuery_spec_clauses [of q] by simp

theorem compileQuery_clauses_witness:
  "join '' ''
     (spec_clauses
        (SelectQuery
           [Cte ''recent''
              (SelectQuery [] False [Column None ''block_number''] (Table ''base.blocks'' None)
                 [] [] [] [] [] (Some 10))]
           True
           [Alias (Column None ''address'') ''addr'',
            Alias (FunctionCall ''count'' [Star None]) ''cnt'']
           (Table ''base.events'' (Some ''e''))
           [Join LEFT (Table ''recent'' None)
              (Some (BinaryOp (Column (Some ''e'') ''block_number'') ''=''
                 (Column (Some ''recent'') ''block_number'')))]
           [BinaryOp (Column None ''block_number'') ''>'' (Value (LNumber 1000)),
            Or [Column None ''a'', Column None ''b'']]
           [Column None ''address'']
           [BinaryOp (Column None ''cnt'') ''>'' (Value (LNumber 1)),
            And [Column None ''c'', Column None ''d'']]
           [OrderByItem (Column None ''address'') (Some ASC),
            OrderByItem (Column None ''cnt'') None]
           (Some 100))) =
   ''WITH recent AS (SELECT block_number FROM base.blocks LIMIT 10) '' @
   ''SELECT DISTINCT address AS addr, count(*) AS cnt FROM base.events AS e '' @
   ''LEFT JOIN recent ON e.block_number = recent.block_number '' @
   ''WHERE block_number > 1000 AND (a OR b) GROUP BY address '' @
   ''HAVING cnt > 1 AND c AND d ORDER BY address ASC, cnt LIMIT 100''"
proof -
  let ?q = "SelectQuery
           [Cte ''recent''
              (SelectQuery [] False [Column None ''block_number''] (Table ''base.blocks'' None)
                 [] [] [] [] [] (Some 10))]
           True
           [Alias (Column None ''address'') ''addr'',
            Alias (FunctionCall ''count'' [Star None]) ''cnt'']
           (Table ''base.events'' (Some ''e''))
           [Join LEFT (Table ''recent'' None)
              (Some (BinaryOp (Column (Some ''e'') ''block_number'') ''=''
                 (Column (Some ''recent'') ''block_number'')))]
           [BinaryOp (Column None ''block_number'') ''>'' (Value (LNumber 1000)),
            Or [Column None ''a'', Column None ''b'']]
           [Column None ''address'']
           [BinaryOp (Column None ''cnt'') ''>'' (Value (LNumber 1)),
            And [Column None ''c'', Column None ''d'']]
           [OrderByItem (Column None ''address'') (Some ASC),
            OrderByItem (Column None ''cnt'') None]
           (Some 100)"
  have "compileQuery ?q =
   ''WITH recent AS (SELECT block_number FROM base.blocks LIMIT 10) '' @
   ''SELECT DISTINCT address AS addr, count(*) AS cnt FROM base.events AS e '' @
   ''LEFT JOIN recent ON e.block_number = recent.block_number '' @
   ''WHERE block_number > 1000 AND (a OR b) GROUP BY address '' @
   ''HAVING cnt > 1 AND c AND d ORDER BY address ASC, cnt LIMIT 100''"
    by code_simp
  with compileQuery_clauses [of ?q "[]", THEN conjunct1] show ?thesis by simp
qed

section \<open>String arguments of the comparison helpers (claim C9)\<close>

lemma length_split: "length (split c v) = Suc (count_list v c)"
  by (induction v) (auto split: list.splits)

lemma split_once:
  "count_list v c = 1 \<Longrightarrow>
   split c v = [takeWhile (\<lambda>x. x \<noteq> c) v, tl (dropWhile (\<lambda>x. x \<noteq> c) v)]"
proof (induction v)
  case Nil
  then show ?case by simp
next
  case (Cons x v)
  show ?case
  proof (cases "x = c")
    case True
    with Cons.prems have "count_list v c = 0" by simp
    then have "c \<notin> set v" by (simp add: count_list_0_iff)
    then have "split c v = [v]" by (induction v) (auto split: list.splits)
    with True show ?thesis by simp
  next
    case False
    with Cons show ?thesis by simp
  qed
qed

lemma looks_like_column_start:
  "looks_like_column v \<Longrightarrow> v \<noteq> [] \<and> hd v \<noteq> CHR ''.'' \<and> v \<noteq> ''*''"
  by (cases v) (auto simp: is_letter_def)

lemma compile_qualified:
  assumes "CHR ''.'' \<in> set v" "hd v \<noteq> CHR ''.''"
  shows "compileColumn (Some (takeWhile (\<lambda>x. x \<noteq> CHR ''.'') v))
      (tl (dropWhile (\<lambda>x. x \<noteq> CHR ''.'') v)) = v"
proof -
  let ?t = "takeWhile (\<lambda>x. x \<noteq> CHR ''.'') v" and ?d = "dropWhile (\<lambda>x. x \<noteq> CHR ''.'') v"
  from assms have t: "?t \<noteq> []" by (cases v) auto
  from assms have "?d \<noteq> []" by simp
  moreover then have "hd ?d = CHR ''.''" using hd_dropWhile [of "\<lambda>x. x \<noteq> CHR ''.''" v] by simp
  ultimately have "?d = ''.'' @ tl ?d" by (cases ?d) auto
  then have "?t @ ''.'' @ tl ?d = ?t @ ?d" by simp
  with t show ?thesis by (simp add: compileColumn_def)
qed

lemma toNode_column:
  assumes "looks_like_column v"
  shows "toNode (OString v) =
     (if count_list v (CHR ''.'') = 1
      then Column (Some (takeWhile (\<lambda>x. x \<noteq> CHR ''.'') v))
             (tl (dropWhile (\<lambda>x. x \<noteq> CHR ''.'') v))
      else Column None v)"
  using assms by (simp add: Let_def length_split split_once)

lemma compile_toNode_column:
  assumes "looks_like_column v"
  shows "compileNode (toNode (OString v)) = v"
proof (cases "count_list v (CHR ''.'') = 1")
  case True
  then have "CHR ''.'' \<in> set v" using count_list_0_iff [of v "CHR ''.''"] by auto
  with assms True show ?thesis
    using looks_like_column_start [of v]
    by (simp add: toNode_column compile_qualified del: toNode.simps)
next
  case False
  with assms show ?thesis by (simp add: toNode_column compileColumn_def del: toNode.simps)
qed

text \<open>
  Claim C9, as amended. A string argument of a comparison or membership helper that has
  the syntax of an identifier becomes a \<open>Column\<close> node and compiles to its own text, without
  quotes: with exactly one dot the node is qualified by the text before the dot, otherwise
  (no dot, or several) it is an unqualified column named by the whole string. The string
  \<open>*\<close> becomes a \<open>Star\<close> node and compiles to \<open>*\<close>. Every other string becomes a \<open>Value\<close>
  and compiles in single quotes. The helpers put the node of their argument into the
  comparison unchanged.
\<close>

theorem toNode_string_rule:
  "(looks_like_column v \<longrightarrow> compileNode (toNode (OString v)) = v) \<and>
   (looks_like_column v \<and> count_list v (CHR ''.'') = 1 \<longrightarrow>
      toNode (OString v) =
        Column (Some (takeWhile (\<lambda>x. x \<noteq> CHR ''.'') v))
          (tl (dropWhile (\<lambda>x. x \<noteq> CHR ''.'') v))) \<and>
   (looks_like_column v \<and> count_list v (CHR ''.'') \<noteq> 1 \<longrightarrow>
      toNode (OString v) = Column None v) \<and>
   toNode (OString ''*'') = Star None \<and> compileNode (toNode (OString ''*'')) = ''*'' \<and>
   (\<not> looks_like_column v \<and> v \<noteq> ''*'' \<longrightarrow>
      toNode (OString v) = Value (LString v) \<and>
      compileNode (toNode (OString v)) = [CHR 0x27] @ v @ [CHR 0x27]) \<and>
   compileNode (eq left (OString v)) =
     compileNode left @ '' = '' @ compileNode (toNode (OString v)) \<and>
   compileNode (neq left (OString v)) =
     compileNode left @ '' != '' @ compileNode (toNode (OString v)) \<and>
   compileNode (gt left (OString v)) =
     compileNode left @ '' > '' @ compileNode (toNode (OString v)) \<and>
   compileNode (gte left (OString v)) =
     compileNode left @ '' >= '' @ compileNode (toNode (OString v)) \<and>
   compileNode (lt left (OString v)) =
     compileNode left @ '' < '' @ compileNode (toNode (OString v)) \<and>
   compileNode (lte left (OString v)) =
     compileNode left @ '' <= '' @ compileNode (toNode (OString v)) \<and>
   compileNode (between left (OString v) (OString w)) =
     compileNode left @ '' BETWEEN '' @ compileNode (toNode (OString v)) @ '' AND '' @
     compileNode (toNode (OString w)) \<and>
   compileNode (inList left (map OString vs)) =
     compileNode left @ '' IN ('' @
     join '', '' (map (\<lambda>x. compileNode (toNode (OString x))) vs) @ '')'' \<and>
   compileNode (notInList left (map OString vs)) =
     compileNode left @ '' NOT IN ('' @
     join '', '' (map (\<lambda>x. compileNode (toNode (OString x))) vs) @ '')''"
proof -
  have column: "looks_like_column v \<longrightarrow> compileNode (toNode (OString v)) = v"
    by (simp add: compile_toNode_column del: toNode.simps)
  have one: "looks_like_column v \<and> count_list v (CHR ''.'') = 1 \<longrightarrow>
      toNode (OString v) =
        Column (Some (takeWhile (\<lambda>x. x \<noteq> CHR ''.'') v))
          (tl (dropWhile (\<lambda>x. x \<noteq> CHR ''.'') v))"
    by (simp add: toNode_column del: toNode.simps)
  have other: "looks_like_column v \<and> count_list v (CHR ''.'') \<noteq> 1 \<longrightarrow>
      toNode (OString v) = Column None v"
    by (simp add: toNode_column del: toNode.simps)
  have star: "toNode (OString ''*'') = Star None \<and> compileNode (toNode (OString ''*'')) = ''*''"
    by (simp add: is_letter_def)
  have val: "\<not> looks_like_column v \<and> v \<noteq> ''*'' \<longrightarrow>
      toNode (OString v) = Value (LString v) \<and>
      compileNode (toNode (OString v)) = [CHR 0x27] @ v @ [CHR 0x27]"
    by (simp add: compileValue_def)
  have helpers: "compileNode (eq left (OString v)) =
       compileNode left @ '' = '' @ compileNode (toNode (OString v)) \<and>
     compileNode (neq left (OString v)) =
       compileNode left @ '' != '' @ compileNode (toNode (OString v)) \<and>
     compileNode (gt left (OString v)) =
       compileNode left @ '' > '' @ compileNode (toNode (OString v)) \<and>
     compileNode (gte left (OString v)) =
       compileNode left @ '' >= '' @ compileNode (toNode (OString v)) \<and>
     compileNode (lt left (OString v)) =
       compileNode left @ '' < '' @ compileNode (toNode (OString v)) \<and>
     compileNode (lte left (OString v)) =
       compileNode left @ '' <= '' @ compileNode (toNode (OString v)) \<and>
     compileNode (between left (OString v) (OString w)) =
       compileNode left @ '' BETWEEN '' @ compileNode (toNode (OString v)) @ '' AND '' @
       compileNode (toNode (OString w)) \<and>
     compileNode (inList left (map OString vs)) =
       compileNode left @ '' IN ('' @
       join '', '' (map (\<lambda>x. compileNode (toNode (OString x))) vs) @ '')'' \<and>
     compileNode (notInList left (map OString vs)) =
       compileNode left @ '' NOT IN ('' @
       join '', '' (map (\<lambda>x. compileNode (toNode (OString x))) vs) @ '')''"
    by (simp add: eq_def neq_def gt_def gte_def lt_def lte_def between_def inList_def
        notInList_def comp_def del: toNode.simps)
  show ?thesis
    using column one other star val helpers
    apply -
    apply (elim conjE)
    apply (intro conjI; assumption)
    done
qed

theorem toNode_string_rule_witness:
  "compileNode (eq (col ''event_name'') (OString ''transfer'')) = ''event_name = transfer'' \<and>
   toNode (OString ''e.address'') = Column (Some ''e'') ''address'' \<and>
   toNode (OString ''a.b.c'') = Column None ''a.b.c'' \<and>
   toNode (OString ''0x1234'') = Value (LString ''0x1234'') \<and>
   compileNode (toNode (OString ''0x1234'')) = [CHR 0x27] @ ''0x1234'' @ [CHR 0x27]"
proof -
  have a: "looks_like_column ''transfer''" by code_simp
  have b: "looks_like_column ''e.address'' \<and> count_list ''e.address'' (CHR ''.'') = 1"
    by code_simp
  have c: "looks_like_column ''a.b.c'' \<and> count_list ''a.b.c'' (CHR ''.'') \<noteq> 1"
    by code_simp
  have d: "\<not> looks_like_column ''0x1234'' \<and> ''0x1234'' \<noteq> ''*''" by code_simp
  note r = toNode_string_rule [of "''transfer''" "col ''event_name''" "[]" "[]"]
  have plain: "compileNode (toNode (OString ''transfer'')) = ''transfer''"
    using a by (rule r [THEN conjunct1, THEN mp])
  have "compileNode (eq (col ''event_name'') (OString ''transfer'')) =
      compileNode (col ''event_name'') @ '' = '' @ compileNode (toNode (OString ''transfer''))"
    by (rule r [THEN conjunct2, THEN conjunct2, THEN conjunct2, THEN conjunct2, THEN conjunct2,
          THEN conjunct2, THEN conjunct1])
  then have w1: "compileNode (eq (col ''event_name'') (OString ''transfer'')) =
      ''event_name = transfer''"
    unfolding plain by (simp add: col_def compileColumn_def)
  have "toNode (OString ''e.address'') =
      Column (Some (takeWhile (\<lambda>x. x \<noteq> CHR ''.'') ''e.address''))
        (tl (dropWhile (\<lambda>x. x \<noteq> CHR ''.'') ''e.address''))"
    using b by (rule toNode_string_rule [THEN conjunct2, THEN conjunct1, THEN mp])
  then have w2: "toNode (OString ''e.address'') = Column (Some ''e'') ''address''"
    by (simp del: toNode.simps)
  have w3: "toNode (OString ''a.b.c'') = Column None ''a.b.c''"
    using c by (rule toNode_string_rule [THEN conjunct2, THEN conjunct2, THEN conjunct1, THEN mp])
  have w4: "toNode (OString ''0x1234'') = Value (LString ''0x1234'') \<and>
      compileNode (toNode (OString ''0x1234'')) = [CHR 0x27] @ ''0x1234'' @ [CHR 0x27]"
    using d
    by (rule toNode_string_rule [THEN conjunct2, THEN conjunct2, THEN conjunct2, THEN conjunct2,
          THEN conjunct2, THEN conjunct1, THEN mp])
  from w1 w2 w3 w4 show ?thesis by blast
qed

text \<open>
  The claim as stated fails twice: the string \<open>*\<close> has not the syntax of an identifier and
  yet compiles without quotes, and an identifier with two dots is not qualified by a
  table.
\<close>

theorem toNode_star_and_dots:
  "\<not> looks_like_column ''*'' \<and>
   compileNode (eq (col ''event_name'') (OString ''*'')) = ''event_name = *'' \<and>
   looks_like_column ''a.b.c'' \<and> CHR ''.'' \<in> set ''a.b.c'' \<and>
   toNode (OString ''a.b.c'') = Column None ''a.b.c''"
  by code_simp

section \<open>Common table expressions of the creator (claim C10)\<close>










end
